theory Spec2Isabelle
  imports Complex_Main "HOL-Library.Log_Nat"
begin

section \<open>Data model\<close>

text \<open>
  The backend is a set of Convex query and mutation handlers over a document store.
  Document identities and external (identity provider) user ids are both strings at
  run time, and the handlers compare one with the other, so both are \<open>string\<close> here.
  The numeric fields that hold millisecond timestamps, limits, orders and points are
  \<open>int\<close>. The capacity of a contest and the counters of the problem statistics, which
  the handlers compare and divide, are JavaScript numbers. The tables \<open>submissions\<close>
  and \<open>judge0Executions\<close> of the schema are left out: no handler reads or writes them.
\<close>

type_synonym id = string

text \<open>
  A JavaScript number is an IEEE 754 binary64 value, and the validator \<open>v.number()\<close>
  admits every one of them: a finite value, given by the rational it denotes, with
  \<open>Finite 0\<close> the positive zero and \<open>NegZero\<close> the negative one, an infinity, or NaN.
\<close>

datatype number = Finite rat | NegZero | PosInfinity | NegInfinity | NaN

datatype error = ConvexError string | Error string | TypeError string

datatype role = USER | ADMIN

datatype difficulty = EASY | MEDIUM | HARD

text \<open>
  Table \<open>users\<close>, with the fields that \<open>syncUser\<close> writes and the handlers read.
  The schema declares \<open>password\<close>, \<open>avatar\<close> and \<open>updatedAt\<close> as well; no handler
  touches them.
\<close>

record user =
  u_id :: id
  u_userId :: string
  u_email :: string
  u_name :: string
  u_username :: string
  u_isVerified :: bool
  u_role :: role
  u_createdContests :: "id list"
  u_createdProblems :: "id list"
  u_participatedContests :: "id list"
  u_solvedProblems :: "id list"

text \<open>Table \<open>problems\<close>.\<close>

record problem =
  p_id :: id
  p_problemId :: string
  p_title :: string
  p_description :: string
  p_creatorId :: id
  p_testcases :: "id list"
  p_contests :: "id list"
  p_submissions :: "id list"
  p_updatedAt :: int
  p_timeLimit :: int
  p_memoryLimit :: int
  p_difficulty :: "difficulty option"
  p_tags :: "string list option"
  p_sampleInput :: "string option"
  p_sampleOutput :: "string option"

text \<open>
  Table \<open>problemStats\<close>. The schema declares the two counters and the stored rate with
  \<open>v.number()\<close>.
\<close>

record problemStats =
  ps_id :: id
  ps_problemId :: id
  ps_totalSubmissions :: number
  ps_acceptedSubmissions :: number
  ps_acceptanceRate :: number

text \<open>Table \<open>testcases\<close>.\<close>

record testcase =
  t_id :: id
  t_testcaseId :: string
  t_input :: string
  t_output :: string
  t_isPublic :: bool
  t_problemId :: id

text \<open>Table \<open>contestProblems\<close>.\<close>

record contestProblem =
  cp_id :: id
  cp_contestProblemId :: string
  cp_contestId :: id
  cp_problemId :: id
  cp_order :: int
  cp_points :: int

text \<open>Table \<open>contests\<close>.\<close>

record contest =
  c_id :: id
  c_contestId :: string
  c_name :: string
  c_description :: string
  c_creatorId :: id
  c_startTime :: int
  c_endTime :: int
  c_isPublic :: bool
  c_maxSize :: number
  c_problems :: "id list"
  c_users :: "id list"
  c_updatedAt :: int

text \<open>Table \<open>contestSubmissions\<close>.\<close>

record contestSubmission =
  cs_id :: id
  cs_contestSubmissionId :: string
  cs_contestId :: id
  cs_userId :: id
  cs_problemId :: id
  cs_submissionId :: id
  cs_points :: int
  cs_penalty :: int
  cs_submissionTime :: int

text \<open>
  The store: one list of documents per table, in creation order (the order in which
  \<open>collect()\<close> and \<open>first()\<close> see them).
\<close>

record db =
  users :: "user list"
  problems :: "problem list"
  problemStats :: "problemStats list"
  testcases :: "testcase list"
  contestProblems :: "contestProblem list"
  contests :: "contest list"
  contestSubmissions :: "contestSubmission list"

section \<open>Store primitives\<close>

text \<open>\<open>.first()\<close>: the first document of a query, or null.\<close>

definition first :: "'a list \<Rightarrow> 'a option" where
  "first xs = (case xs of [] \<Rightarrow> None | x # _ \<Rightarrow> Some x)"

text \<open>\<open>.unique()\<close>: null, the only document, or an exception when there are several.\<close>

definition unique :: "'a list \<Rightarrow> error + 'a option" where
  "unique xs =
     (case xs of
        [] \<Rightarrow> Inr None
      | [x] \<Rightarrow> Inr (Some x)
      | _ \<Rightarrow> Inl (Error ''unique() query returned more than one result''))"

text \<open>\<open>ctx.db.get(id)\<close> on a table whose identity field is \<open>key\<close>.\<close>

definition get :: "('a \<Rightarrow> id) \<Rightarrow> 'a list \<Rightarrow> id \<Rightarrow> 'a option" where
  "get key tbl i = find (\<lambda>d. key d = i) tbl"

text \<open>
  \<open>ctx.db.patch(id, fields)\<close> and \<open>ctx.db.delete(id)\<close> throw when no document has
  the identity.
\<close>

definition patch :: "('a \<Rightarrow> id) \<Rightarrow> id \<Rightarrow> ('a \<Rightarrow> 'a) \<Rightarrow> 'a list \<Rightarrow> error + 'a list" where
  "patch key i f tbl =
     (if i \<in> set (map key tbl)
      then Inr (map (\<lambda>d. if key d = i then f d else d) tbl)
      else Inl (Error ''patch: document not found''))"

definition delete :: "('a \<Rightarrow> id) \<Rightarrow> id \<Rightarrow> 'a list \<Rightarrow> error + 'a list" where
  "delete key i tbl =
     (if i \<in> set (map key tbl)
      then Inr (filter (\<lambda>d. key d \<noteq> i) tbl)
      else Inl (Error ''delete: document not found''))"

text \<open>
  \<open>requireAuth(ctx)\<close> is imported from the users module but is not part of the
  sources at hand. Its outcome is a parameter of every handler that calls it:
  \<open>Inl e\<close> when it throws \<open>e\<close>, \<open>Inr None\<close> when it returns \<open>{ user: null }\<close>,
  \<open>Inr (Some u)\<close> when it returns the caller's user document \<open>u\<close>.
\<close>

type_synonym auth = "error + user option"

section \<open>Strings and numbers of the run time\<close>

text \<open>Decimal rendering of a number inside a template string.\<close>

function show_nat :: "nat \<Rightarrow> string" where
  "show_nat n =
     (if n < 10 then [char_of (48 + n)]
      else show_nat (n div 10) @ [char_of (48 + n mod 10)])"
  by pat_completeness auto
termination
  by (relation "measure id") auto

definition show_int :: "int \<Rightarrow> string" where
  "show_int i = (if i < 0 then CHR ''-'' # show_nat (nat (- i)) else show_nat (nat i))"

text \<open>\<open>String.prototype.trim\<close>, on the white space an 8-bit string can hold.\<close>

definition is_space :: "char \<Rightarrow> bool" where
  "is_space c = (c \<in> set [CHR 0x20, CHR 0x09, CHR 0x0A, CHR 0x0B, CHR 0x0C, CHR 0x0D])"

definition trim :: "string \<Rightarrow> string" where
  "trim s = rev (dropWhile is_space (rev (dropWhile is_space s)))"

text \<open>
  \<open>Array.prototype.slice(start, end)\<close>: a negative index counts from the end, and
  both are clamped to the array.
\<close>

definition slice :: "'a list \<Rightarrow> int \<Rightarrow> int \<Rightarrow> 'a list" where
  "slice xs start end =
     (let len = int (length xs);
          k = (if start < 0 then max (len + start) 0 else min start len);
          final = (if end < 0 then max (len + end) 0 else min end len)
      in take (nat (final - k)) (drop (nat k) xs))"

text \<open>
  \<open>Math.round\<close> and the arithmetic of numbers. A positive real \<open>x\<close> lies in one binade
  \<open>2 ^ e \<le> x < 2 ^ (e + 1)\<close>, \<open>e = expo x\<close>; the doubles of that binade are the multiples
  of \<open>quantum x = 2 ^ (e - 52)\<close>, and below \<open>2 ^ -1022\<close> the subnormal doubles are the
  multiples of \<open>2 ^ -1074\<close>.
\<close>

definition expo :: "rat \<Rightarrow> int" where
  "expo x = (if 1 \<le> x then bitlen \<lfloor>x\<rfloor> - 1 else - bitlen (\<lceil>1 / x\<rceil> - 1))"

definition quantum :: "rat \<Rightarrow> rat" where
  "quantum x = 2 powi (max (expo x) (- 1022) - 52)"

text \<open>The nearest integer, a tie going to the even one.\<close>

definition rne :: "rat \<Rightarrow> int" where
  "rne m =
     (let f = \<lfloor>m\<rfloor>; d = m - rat_of_int f
      in if d < 1 / 2 then f else if 1 / 2 < d then f + 1 else if even f then f else f + 1)"

text \<open>
  The result of an arithmetic operation is its exact value rounded to the nearest
  double, a tie going to the double with an even significand (\<open>round_pos\<close>, on a
  positive value); a rounded value of \<open>2 ^ 1024\<close> or more overflows to an infinity, and
  a negative value that rounds to zero gives the negative zero.
\<close>

definition round_pos :: "rat \<Rightarrow> rat" where
  "round_pos x = rat_of_int (rne (x / quantum x)) * quantum x"

definition double_of :: "rat \<Rightarrow> number" where
  "double_of x =
     (if x = 0 then Finite 0
      else if 0 < x
      then (let r = round_pos x in if 2 ^ 1024 \<le> r then PosInfinity else Finite r)
      else (let r = round_pos (- x)
            in if 2 ^ 1024 \<le> r then NegInfinity else if r = 0 then NegZero else Finite (- r)))"

fun is_zero :: "number \<Rightarrow> bool" where
  "is_zero (Finite x) = (x = 0)"
| "is_zero NegZero = True"
| "is_zero a = False"

fun is_infinite :: "number \<Rightarrow> bool" where
  "is_infinite PosInfinity = True"
| "is_infinite NegInfinity = True"
| "is_infinite a = False"

text \<open>The sign bit of a number that is not NaN.\<close>

fun negative :: "number \<Rightarrow> bool" where
  "negative (Finite x) = (x < 0)"
| "negative NegZero = True"
| "negative NegInfinity = True"
| "negative a = False"

fun real_value :: "number \<Rightarrow> rat" where
  "real_value (Finite x) = x"
| "real_value a = 0"

definition zero :: "bool \<Rightarrow> number" where
  "zero neg = (if neg then NegZero else Finite 0)"

definition infinity :: "bool \<Rightarrow> number" where
  "infinity neg = (if neg then NegInfinity else PosInfinity)"

text \<open>The operators \<open>*\<close> and \<open>/\<close> on numbers.\<close>

definition js_mul :: "number \<Rightarrow> number \<Rightarrow> number" where
  "js_mul a b =
     (if a = NaN \<or> b = NaN then NaN
      else if (is_infinite a \<and> is_zero b) \<or> (is_zero a \<and> is_infinite b) then NaN
      else if is_infinite a \<or> is_infinite b then infinity (negative a \<noteq> negative b)
      else if is_zero a \<or> is_zero b then zero (negative a \<noteq> negative b)
      else double_of (real_value a * real_value b))"

definition js_div :: "number \<Rightarrow> number \<Rightarrow> number" where
  "js_div a b =
     (if a = NaN \<or> b = NaN then NaN
      else if is_infinite a
      then (if is_infinite b then NaN else infinity (negative a \<noteq> negative b))
      else if is_infinite b then zero (negative a \<noteq> negative b)
      else if is_zero a
      then (if is_zero b then NaN else zero (negative a \<noteq> negative b))
      else if is_zero b then infinity (negative a \<noteq> negative b)
      else double_of (real_value a / real_value b))"

text \<open>
  The comparisons \<open><\<close>, \<open>>\<close>, \<open><=\<close> and \<open>>=\<close>: false when an operand is NaN; the
  two zeros are equal.
\<close>

fun js_lt :: "number \<Rightarrow> number \<Rightarrow> bool" where
  "js_lt NaN b = False"
| "js_lt a NaN = False"
| "js_lt PosInfinity b = False"
| "js_lt a PosInfinity = True"
| "js_lt a NegInfinity = False"
| "js_lt NegInfinity b = True"
| "js_lt a b = (real_value a < real_value b)"

definition js_gt :: "number \<Rightarrow> number \<Rightarrow> bool" where
  "js_gt a b = js_lt b a"

definition js_le :: "number \<Rightarrow> number \<Rightarrow> bool" where
  "js_le a b = (a \<noteq> NaN \<and> b \<noteq> NaN \<and> \<not> js_lt b a)"

definition js_ge :: "number \<Rightarrow> number \<Rightarrow> bool" where
  "js_ge a b = js_le b a"

text \<open>
  \<open>Math.round\<close>: the nearest integer, a tie going up; the negative zero for a negative
  value not below \<open>-0.5\<close>; an infinity, NaN or the negative zero is returned as it is.
\<close>

fun Math_round :: "number \<Rightarrow> number" where
  "Math_round (Finite x) =
     (if x < 0 \<and> - (1 / 2) \<le> x then NegZero else Finite (rat_of_int \<lfloor>x + 1 / 2\<rfloor>))"
| "Math_round a = a"

text \<open>The real that a finite number denotes.\<close>

fun numeric :: "number \<Rightarrow> rat option" where
  "numeric (Finite x) = Some x"
| "numeric NegZero = Some 0"
| "numeric a = None"

text \<open>The \<open>length\<close> of an array, as a number.\<close>

definition js_length :: "'a list \<Rightarrow> number" where
  "js_length xs = Finite (rat_of_nat (length xs))"

section \<open>Contests: mutations\<close>

text \<open>
  A mutation is a function from the store to the store as written so far, paired with
  the thrown error or the returned value. Every \<open>Date.now()\<close> of one call reads the
  parameter \<open>now\<close>; the output of \<open>Math.random()\<close> and the identity that
  \<open>ctx.db.insert\<close> generates are parameters too.
\<close>

record createContestArgs =
  cc_name :: string
  cc_description :: string
  cc_startTime :: int
  cc_endTime :: int
  cc_isPublic :: bool
  cc_maxSize :: number
  cc_addSelf :: bool

definition createContest ::
  "db \<Rightarrow> auth \<Rightarrow> int \<Rightarrow> string \<Rightarrow> id \<Rightarrow> createContestArgs \<Rightarrow> db \<times> (error + string \<times> id)" where
  "createContest db auth now rnd newId args =
     (case auth of
        Inl e \<Rightarrow> (db, Inl e)
      | Inr None \<Rightarrow> (db, Inl (ConvexError ''User not found!''))
      | Inr (Some user) \<Rightarrow>
          if cc_startTime args < now
          then (db, Inl (ConvexError ''Contest startTime cannot be in the past''))
          else if cc_endTime args \<le> cc_startTime args
          then (db, Inl (ConvexError ''Contest end time must be after start time''))
          else if js_le (cc_maxSize args) (Finite 0)
          then (db, Inl (ConvexError ''Max size must be positive''))
          else
            let contestId = ''contest_'' @ show_int now @ ''_'' @ rnd;
                contestDocId = newId;
                db1 = db\<lparr>contests := contests db @
                  [\<lparr>c_id = contestDocId,
                    c_contestId = contestId,
                    c_name = trim (cc_name args),
                    c_description = trim (cc_description args),
                    c_creatorId = u_id user,
                    c_startTime = cc_startTime args,
                    c_endTime = cc_endTime args,
                    c_isPublic = cc_isPublic args,
                    c_maxSize = cc_maxSize args,
                    c_problems = [],
                    c_users = (if cc_addSelf args then [u_id user] else []),
                    c_updatedAt = now\<rparr>]\<rparr>
            in case patch u_id (u_id user)
                      (\<lambda>u. u\<lparr>u_createdContests := u_createdContests user @ [contestDocId],
                              u_participatedContests :=
                                (if cc_addSelf args
                                 then (if contestDocId \<in> set (u_participatedContests user)
                                       then u_participatedContests user
                                       else u_participatedContests user @ [contestDocId])
                                 else u_participatedContests user)\<rparr>)
                      (users db1) of
                 Inl e \<Rightarrow> (db1, Inl e)
               | Inr us \<Rightarrow>
                   (db1\<lparr>users := us\<rparr>, Inr (''Contest created successfully!'', contestDocId)))"

record updateContestArgs =
  uc_contestId :: string
  uc_name :: "string option"
  uc_description :: "string option"
  uc_startTime :: "int option"
  uc_endTime :: "int option"
  uc_isPublic :: "bool option"
  uc_maxSize :: "number option"

text \<open>
  In \<open>updateContest\<close>, \<open>Object.keys(args)\<close> holds the optional arguments that the
  caller passed, that is the ones that are not \<open>None\<close>.
\<close>

definition updateContest ::
  "db \<Rightarrow> auth \<Rightarrow> int \<Rightarrow> updateContestArgs \<Rightarrow> db \<times> (error + string)" where
  "updateContest db auth now args =
     (case auth of
        Inl e \<Rightarrow> (db, Inl e)
      | Inr None \<Rightarrow> (db, Inl (ConvexError ''User not found!''))
      | Inr (Some user) \<Rightarrow>
          (case first (filter (\<lambda>c. c_contestId c = uc_contestId args) (contests db)) of
             None \<Rightarrow> (db, Inl (ConvexError ''Contest not found!''))
           | Some contest \<Rightarrow>
               let isCreator = (c_creatorId contest = u_id user);
                   isAdmin = (u_role user = ADMIN);
                   hasStarted = (now \<ge> c_startTime contest);
                   newStartTime = (case uc_startTime args of Some s \<Rightarrow> s | None \<Rightarrow> c_startTime contest);
                   newEndTime = (case uc_endTime args of Some e \<Rightarrow> e | None \<Rightarrow> c_endTime contest)
               in
               if \<not> isCreator \<and> \<not> isAdmin
               then (db, Inl (ConvexError ''Only contest creator or admin can update contest''))
               else if hasStarted \<and>
                       (uc_name args \<noteq> None \<or> uc_startTime args \<noteq> None \<or> uc_endTime args \<noteq> None \<or>
                        uc_isPublic args \<noteq> None \<or> uc_maxSize args \<noteq> None)
               then (db, Inl (ConvexError ''Can only update description for contests that have started''))
               else if (uc_startTime args \<noteq> None \<or> uc_endTime args \<noteq> None) \<and>
                       \<not> hasStarted \<and> newStartTime < now
               then (db, Inl (ConvexError ''Contest start time cannot be in the past''))
               else if (uc_startTime args \<noteq> None \<or> uc_endTime args \<noteq> None) \<and>
                       newEndTime \<le> newStartTime
               then (db, Inl (ConvexError ''Contest end time must be after start time''))
               else if (case uc_maxSize args of Some m \<Rightarrow> js_le m (Finite 0) | None \<Rightarrow> False)
               then (db, Inl (ConvexError ''Max size must be positive''))
               else if (case uc_maxSize args of
                          Some m \<Rightarrow> js_lt m (js_length (c_users contest)) | None \<Rightarrow> False)
               then (db, Inl (ConvexError ''Max size cannot be less than current participant count''))
               else
                 case patch c_id (c_id contest)
                        (\<lambda>c. c\<lparr>c_updatedAt := now,
                                c_name := (case uc_name args of Some n \<Rightarrow> trim n | None \<Rightarrow> c_name c),
                                c_description :=
                                  (case uc_description args of Some d \<Rightarrow> trim d | None \<Rightarrow> c_description c),
                                c_startTime :=
                                  (case uc_startTime args of Some s \<Rightarrow> s | None \<Rightarrow> c_startTime c),
                                c_endTime := (case uc_endTime args of Some e \<Rightarrow> e | None \<Rightarrow> c_endTime c),
                                c_isPublic :=
                                  (case uc_isPublic args of Some b \<Rightarrow> b | None \<Rightarrow> c_isPublic c),
                                c_maxSize := (case uc_maxSize args of Some m \<Rightarrow> m | None \<Rightarrow> c_maxSize c)\<rparr>)
                        (contests db) of
                   Inl e \<Rightarrow> (db, Inl e)
                 | Inr cs \<Rightarrow> (db\<lparr>contests := cs\<rparr>, Inr ''Contest has been updated successfully!'')))"

text \<open>The two loops of \<open>deleteContest\<close>.\<close>

fun deleteContestProblems :: "db \<Rightarrow> contestProblem list \<Rightarrow> db \<times> (error + unit)" where
  "deleteContestProblems db [] = (db, Inr ())"
| "deleteContestProblems db (cp # cps) =
     (case delete cp_id (cp_id cp) (contestProblems db) of
        Inl e \<Rightarrow> (db, Inl e)
      | Inr tbl \<Rightarrow> deleteContestProblems (db\<lparr>contestProblems := tbl\<rparr>) cps)"

fun patchParticipants :: "db \<Rightarrow> id \<Rightarrow> user option list \<Rightarrow> db \<times> (error + unit)" where
  "patchParticipants db contest_id [] = (db, Inr ())"
| "patchParticipants db contest_id (None # ps) = patchParticipants db contest_id ps"
| "patchParticipants db contest_id (Some participant # ps) =
     (case patch u_id (u_id participant)
             (\<lambda>u. u\<lparr>u_createdContests :=
                       filter (\<lambda>i. i \<noteq> contest_id) (u_createdContests participant),
                     u_participatedContests :=
                       filter (\<lambda>i. i \<noteq> contest_id) (u_participatedContests participant)\<rparr>)
             (users db) of
        Inl e \<Rightarrow> (db, Inl e)
      | Inr us \<Rightarrow> patchParticipants (db\<lparr>users := us\<rparr>) contest_id ps)"

definition deleteContest :: "db \<Rightarrow> auth \<Rightarrow> string \<Rightarrow> db \<times> (error + string \<times> bool)" where
  "deleteContest db auth contestId =
     (case auth of
        Inl e \<Rightarrow> (db, Inl e)
      | Inr None \<Rightarrow> (db, Inl (Error ''User not found''))
      | Inr (Some user) \<Rightarrow>
          (case unique (filter (\<lambda>c. c_contestId c = contestId) (contests db)) of
             Inl e \<Rightarrow> (db, Inl e)
           | Inr None \<Rightarrow> (db, Inl (Error ''Contest not found''))
           | Inr (Some contest) \<Rightarrow>
               let isCreator = (c_creatorId contest = u_id user);
                   isAdmin = (u_role user = ADMIN)
               in
               if \<not> isCreator \<and> \<not> isAdmin
               then (db, Inl (Error ''Only contest creator or admin can delete contest''))
               else
                 (case first (filter (\<lambda>s. cs_contestId s = c_id contest) (contestSubmissions db)) of
                    Some hasSubmissions \<Rightarrow>
                      (db, Inl (Error ''Cannot delete contest with existing submissions''))
                  | None \<Rightarrow>
                      (case deleteContestProblems db
                              (filter (\<lambda>cp. cp_contestId cp = c_id contest) (contestProblems db)) of
                         (db1, Inl e) \<Rightarrow> (db1, Inl e)
                       | (db1, Inr _) \<Rightarrow>
                           (case patchParticipants db1 (c_id contest)
                                   (map (get u_id (users db1)) (c_users contest)) of
                              (db2, Inl e) \<Rightarrow> (db2, Inl e)
                            | (db2, Inr _) \<Rightarrow>
                                (case delete c_id (c_id contest) (contests db2) of
                                   Inl e \<Rightarrow> (db2, Inl e)
                                 | Inr cs \<Rightarrow>
                                     (db2\<lparr>contests := cs\<rparr>,
                                      Inr (''Contest deleted successfully'', True))))))))"

definition joinContest :: "db \<Rightarrow> auth \<Rightarrow> int \<Rightarrow> string \<Rightarrow> db \<times> (error + string \<times> bool)" where
  "joinContest db auth now contestId =
     (case auth of
        Inl e \<Rightarrow> (db, Inl e)
      | Inr None \<Rightarrow> (db, Inl (ConvexError ''User not found''))
      | Inr (Some user) \<Rightarrow>
          (case unique (filter (\<lambda>c. c_contestId c = contestId) (contests db)) of
             Inl e \<Rightarrow> (db, Inl e)
           | Inr None \<Rightarrow> (db, Inl (ConvexError ''Contest not found''))
           | Inr (Some contest) \<Rightarrow>
               if \<not> c_isPublic contest
               then (db, Inl (ConvexError ''Contest is private''))
               else if u_id user \<in> set (c_users contest)
               then (db, Inl (ConvexError ''Already joined this contest''))
               else if js_ge (js_length (c_users contest)) (c_maxSize contest)
               then (db, Inl (ConvexError ''Contest is full''))
               else if now > c_endTime contest
               then (db, Inl (ConvexError ''Contest has ended''))
               else
                 (case patch c_id (c_id contest)
                         (\<lambda>c. c\<lparr>c_users := c_users contest @ [u_id user], c_updatedAt := now\<rparr>)
                         (contests db) of
                    Inl e \<Rightarrow> (db, Inl e)
                  | Inr cs \<Rightarrow>
                      let db1 = db\<lparr>contests := cs\<rparr> in
                      (case patch u_id (u_id user)
                              (\<lambda>u. u\<lparr>u_participatedContests :=
                                        u_participatedContests user @ [c_id contest]\<rparr>)
                              (users db1) of
                         Inl e \<Rightarrow> (db1, Inl e)
                       | Inr us \<Rightarrow>
                           (db1\<lparr>users := us\<rparr>,
                            Inr (''Joined contest: '' @ c_name contest @ '' successfully'', True))))))"

definition leaveContest :: "db \<Rightarrow> auth \<Rightarrow> int \<Rightarrow> string \<Rightarrow> db \<times> (error + string \<times> bool)" where
  "leaveContest db auth now contestId =
     (case auth of
        Inl e \<Rightarrow> (db, Inl e)
      | Inr None \<Rightarrow> (db, Inl (Error ''User not found''))
      | Inr (Some user) \<Rightarrow>
          (case unique (filter (\<lambda>c. c_contestId c = contestId) (contests db)) of
             Inl e \<Rightarrow> (db, Inl e)
           | Inr None \<Rightarrow> (db, Inl (Error ''Contest not found''))
           | Inr (Some contest) \<Rightarrow>
               if u_id user \<notin> set (c_users contest)
               then (db, Inl (Error ''Not participating in this contest''))
               else if now \<ge> c_startTime contest
               then (db, Inl (Error ''Cannot leave contest after it has started''))
               else
                 (case patch c_id (c_id contest)
                         (\<lambda>c. c\<lparr>c_users := filter (\<lambda>i. i \<noteq> u_id user) (c_users contest),
                                 c_updatedAt := now\<rparr>)
                         (contests db) of
                    Inl e \<Rightarrow> (db, Inl e)
                  | Inr cs \<Rightarrow>
                      let db1 = db\<lparr>contests := cs\<rparr> in
                      (case patch u_id (u_id user)
                              (\<lambda>u. u\<lparr>u_participatedContests :=
                                        filter (\<lambda>i. i \<noteq> c_id contest) (u_participatedContests user)\<rparr>)
                              (users db1) of
                         Inl e \<Rightarrow> (db1, Inl e)
                       | Inr us \<Rightarrow>
                           (db1\<lparr>users := us\<rparr>, Inr (''Successfully left the contest'', True))))))"

section \<open>Contests: queries\<close>

datatype contestFilter =
  F_all | F_public | F_my_created | F_my_participated | F_upcoming | F_ongoing | F_ended

text \<open>
  The phase shown on a contest card. \<open>listContests\<close> and \<open>getContestDetails\<close> hold
  the same three statements.
\<close>

definition contestStatus :: "int \<Rightarrow> contest \<Rightarrow> string" where
  "contestStatus now contest =
     (let status = ''upcoming'';
          status = (if now \<ge> c_startTime contest \<and> now < c_endTime contest
                    then ''ongoing'' else status);
          status = (if now \<ge> c_endTime contest then ''ended'' else status)
      in status)"

text \<open>The creator shown with a contest: the first user whose \<open>userId\<close> is the contest's \<open>creatorId\<close>.\<close>

definition contestCreator :: "db \<Rightarrow> contest \<Rightarrow> (string \<times> string) option" where
  "contestCreator db contest =
     (case first (filter (\<lambda>u. u_userId u = c_creatorId contest) (users db)) of
        Some creator \<Rightarrow> Some (u_name creator, u_username creator)
      | None \<Rightarrow> None)"

text \<open>The \<open>switch\<close> of \<open>listContests\<close>: the contests each filter selects.\<close>

definition selectContests ::
  "contestFilter \<Rightarrow> user option \<Rightarrow> int \<Rightarrow> contest list \<Rightarrow> error + contest list" where
  "selectContests flt user now cs =
     (case flt of
        F_all \<Rightarrow>
          (case user of
             None \<Rightarrow> Inl (ConvexError ''Must be authenticated!'')
           | Some u \<Rightarrow> Inr cs)
      | F_public \<Rightarrow> Inr (filter (\<lambda>c. c_isPublic c = True) cs)
      | F_my_created \<Rightarrow>
          (case user of
             None \<Rightarrow> Inl (ConvexError ''Must be authenticated'')
           | Some u \<Rightarrow> Inr (filter (\<lambda>c. c_creatorId c = u_userId u) cs))
      | F_my_participated \<Rightarrow>
          (case user of
             None \<Rightarrow> Inl (ConvexError ''Must be authenticated'')
           | Some u \<Rightarrow> Inr (filter (\<lambda>c. u_userId u \<in> set (c_users c)) cs))
      | F_upcoming \<Rightarrow> Inr (filter (\<lambda>c. c_isPublic c = True \<and> c_startTime c > now) cs)
      | F_ongoing \<Rightarrow>
          Inr (filter (\<lambda>c. c_isPublic c = True \<and> c_startTime c \<le> now \<and> c_endTime c > now) cs)
      | F_ended \<Rightarrow> Inr (filter (\<lambda>c. c_isPublic c = True \<and> c_endTime c < now) cs))"

record contestCard =
  lc_contest :: contest
  lc_status :: string
  lc_participantCount :: nat
  lc_problemCount :: nat
  lc_creator :: "(string \<times> string) option"

record contestPage =
  lp_contests :: "contestCard list"
  lp_total :: nat
  lp_hasMore :: bool

text \<open>
  \<open>Array.prototype.sort\<close> is stable, and so is \<open>sort_key\<close>; the comparator
  \<open>b.startTime - a.startTime\<close> is the descending order.
\<close>

definition listContests ::
  "db \<Rightarrow> auth \<Rightarrow> int \<Rightarrow> contestFilter option \<Rightarrow> int option \<Rightarrow> int option \<Rightarrow> error + contestPage" where
  "listContests db auth now filter_arg limit_arg offset_arg =
     (case auth of
        Inl e \<Rightarrow> Inl e
      | Inr user \<Rightarrow>
          let flt = (case filter_arg of Some f \<Rightarrow> f | None \<Rightarrow> F_public);
              limit = (case limit_arg of Some l \<Rightarrow> (if l = 0 then 20 else l) | None \<Rightarrow> 20);
              offset = (case offset_arg of Some off \<Rightarrow> off | None \<Rightarrow> 0)
          in
          (case selectContests flt user now (contests db) of
             Inl e \<Rightarrow> Inl e
           | Inr cs \<Rightarrow>
               let sorted = (if flt = F_upcoming then sort_key c_startTime cs
                             else sort_key (\<lambda>c. - c_startTime c) cs);
                   paginatedContests = slice sorted offset (offset + limit);
                   contestsWithMeta =
                     map (\<lambda>contest.
                            \<lparr>lc_contest = contest,
                             lc_status = contestStatus now contest,
                             lc_participantCount = length (c_users contest),
                             lc_problemCount = length (c_problems contest),
                             lc_creator = contestCreator db contest\<rparr>)
                         paginatedContests
               in Inr \<lparr>lp_contests = contestsWithMeta,
                        lp_total = length sorted,
                        lp_hasMore = (offset + limit < int (length sorted))\<rparr>))"





section \<open>Problems and testcases: queries\<close>

record problemView =
  pv_problem :: problem
  pv_creator :: "(string \<times> string) option"
  pv_testcases :: "testcase list"

text \<open>The loop of \<open>getProblem\<close> over \<open>problem.testcases\<close>.\<close>

fun publicTestcases :: "db \<Rightarrow> id list \<Rightarrow> testcase list" where
  "publicTestcases db [] = []"
| "publicTestcases db (testcaseId # rest) =
     (case get t_id (testcases db) testcaseId of
        Some testcase \<Rightarrow> (if t_isPublic testcase then [testcase] else [])
      | None \<Rightarrow> [])
     @ publicTestcases db rest"

definition getProblem :: "db \<Rightarrow> string \<Rightarrow> error + problemView" where
  "getProblem db problemId =
     (case first (filter (\<lambda>p. p_problemId p = problemId) (problems db)) of
        None \<Rightarrow> Inl (ConvexError ''Problem not found'')
      | Some problem \<Rightarrow>
          Inr \<lparr>pv_problem = problem,
               pv_creator =
                 (case get u_id (users db) (p_creatorId problem) of
                    Some creator \<Rightarrow> Some (u_name creator, u_username creator)
                  | None \<Rightarrow> None),
               pv_testcases = publicTestcases db (p_testcases problem)\<rparr>)"

text \<open>
  The loop of \<open>getProblemTestCases\<close>. The optional argument \<open>publicOnly\<close> is
  \<open>None\<close> when the caller left it out; \<open>args.publicOnly === false\<close> is
  \<open>publicOnly = Some False\<close>.
\<close>

fun collectTestcases :: "db \<Rightarrow> bool \<Rightarrow> bool option \<Rightarrow> id list \<Rightarrow> testcase list" where
  "collectTestcases db canSeeAll publicOnly [] = []"
| "collectTestcases db canSeeAll publicOnly (testcaseId # rest) =
     (case get t_id (testcases db) testcaseId of
        Some testcase \<Rightarrow>
          (if canSeeAll \<or> publicOnly = Some False \<or> t_isPublic testcase then [testcase] else [])
      | None \<Rightarrow> [])
     @ collectTestcases db canSeeAll publicOnly rest"

text \<open>
  \<open>requireAuth\<close> runs only when \<open>!args.publicOnly\<close>. The handler then reads
  \<open>user._id\<close>, which throws a \<open>TypeError\<close> when \<open>user\<close> is \<open>null\<close>.
\<close>

definition getProblemTestCases ::
  "db \<Rightarrow> auth \<Rightarrow> string \<Rightarrow> bool option \<Rightarrow> error + testcase list" where
  "getProblemTestCases db auth problemId publicOnly =
     (case first (filter (\<lambda>p. p_problemId p = problemId) (problems db)) of
        None \<Rightarrow> Inl (ConvexError ''Problem not found'')
      | Some problem \<Rightarrow>
          if publicOnly \<noteq> Some True
          then
            (case auth of
               Inl e \<Rightarrow> Inl e
             | Inr None \<Rightarrow> Inl (TypeError ''Cannot read properties of null'')
             | Inr (Some user) \<Rightarrow>
                 let canSeeAll = (p_creatorId problem = u_id user \<or> u_role user = ADMIN)
                 in Inr (collectTestcases db canSeeAll publicOnly (p_testcases problem)))
          else Inr (collectTestcases db False publicOnly (p_testcases problem)))"

record statsView =
  sv_totalSubmissions :: number
  sv_acceptedSubmissions :: number
  sv_acceptanceRate :: number
  sv_difficulty :: "difficulty option"

text \<open>
  \<open>getProblemStats\<close> returns a message when the problem has no statistics.
\<close>

definition getProblemStats :: "db \<Rightarrow> string \<Rightarrow> error + (string + statsView)" where
  "getProblemStats db problemId =
     (case first (filter (\<lambda>p. p_problemId p = problemId) (problems db)) of
        None \<Rightarrow> Inl (ConvexError ''Problem not found'')
      | Some problem \<Rightarrow>
          (case first (filter (\<lambda>s. ps_problemId s = p_id problem) (problemStats db)) of
             None \<Rightarrow> Inr (Inl ''No stats availble for the specific problem!'')
           | Some stats \<Rightarrow>
               let totalSubmissions = ps_totalSubmissions stats;
                   acceptedSubmissions = ps_acceptedSubmissions stats;
                   acceptanceRate =
                     (if js_gt totalSubmissions (Finite 0)
                      then js_mul (js_div acceptedSubmissions totalSubmissions) (Finite 100)
                      else Finite 0)
               in Inr (Inr \<lparr>sv_totalSubmissions = totalSubmissions,
                            sv_acceptedSubmissions = acceptedSubmissions,
                            sv_acceptanceRate =
                              js_div (Math_round (js_mul acceptanceRate (Finite 100))) (Finite 100),
                            sv_difficulty = p_difficulty problem\<rparr>)))"

section \<open>Users\<close>

record syncUserArgs =
  su_userId :: string
  su_email :: string
  su_name :: string

text \<open>
  \<open>randomNumber\<close> is \<open>Math.floor(100000 + Math.random() * 900000)\<close>, a parameter
  like the generated identity.
\<close>

definition syncUser :: "db \<Rightarrow> nat \<Rightarrow> id \<Rightarrow> syncUserArgs \<Rightarrow> db \<times> (error + unit)" where
  "syncUser db randomNumber newId args =
     (let existingUser = first (filter (\<lambda>u. u_userId u = su_userId args) (users db));
          username = su_name args @ ''_'' @ show_nat randomNumber
      in
      if existingUser = None
      then (db\<lparr>users := users db @
                  [\<lparr>u_id = newId,
                    u_userId = su_userId args,
                    u_email = su_email args,
                    u_name = su_name args,
                    u_username = username,
                    u_isVerified = False,
                    u_role = USER,
                    u_createdContests = [],
                    u_createdProblems = [],
                    u_participatedContests = [],
                    u_solvedProblems = []\<rparr>]\<rparr>,
            Inr ())
      else (db, Inr ()))"

section \<open>Problems and testcases: mutations\<close>

text \<open>
  \<open>try { ... } catch (error) { return fallback }\<close>: a throw inside the block ends it,
  the handler returns the fallback value, and the writes made before the throw stay.
\<close>

definition try_catch :: "db \<times> (error + 'a) \<Rightarrow> 'a \<Rightarrow> db \<times> (error + 'a)" where
  "try_catch r fallback = (case snd r of Inl e \<Rightarrow> (fst r, Inr fallback) | Inr v \<Rightarrow> r)"

definition canModifyProblem :: "db \<Rightarrow> auth \<Rightarrow> string \<Rightarrow> error + user \<times> problem" where
  "canModifyProblem db auth problemId =
     (case auth of
        Inl e \<Rightarrow> Inl e
      | Inr user \<Rightarrow>
          (case first (filter (\<lambda>p. p_problemId p = problemId) (problems db)) of
             None \<Rightarrow> Inl (ConvexError ''Problem not found'')
           | Some problem \<Rightarrow>
               (case user of
                  None \<Rightarrow> Inl (TypeError ''Cannot read properties of null'')
                | Some u \<Rightarrow>
                    if p_creatorId problem \<noteq> u_id u \<and> u_role u \<noteq> ADMIN
                    then Inl (ConvexError ''Permission denied'')
                    else Inr (u, problem))))"

record createTestCaseArgs =
  ct_problemId :: string
  ct_input :: string
  ct_output :: string
  ct_isPublic :: bool

definition createTestCase ::
  "db \<Rightarrow> auth \<Rightarrow> int \<Rightarrow> string \<Rightarrow> id \<Rightarrow> createTestCaseArgs \<Rightarrow> db \<times> (error + string \<times> string)" where
  "createTestCase db auth now rnd newId args =
     (case canModifyProblem db auth (ct_problemId args) of
        Inl e \<Rightarrow> (db, Inl e)
      | Inr (user, problem) \<Rightarrow>
          let testcaseId = ''TC_'' @ show_int now @ ''_'' @ rnd;
              testcaseDocId = newId;
              db1 = db\<lparr>testcases := testcases db @
                [\<lparr>t_id = testcaseDocId,
                  t_testcaseId = testcaseId,
                  t_input = ct_input args,
                  t_output = ct_output args,
                  t_isPublic = ct_isPublic args,
                  t_problemId = p_id problem\<rparr>]\<rparr>
          in case patch p_id (p_id problem)
                    (\<lambda>p. p\<lparr>p_testcases := p_testcases problem @ [testcaseDocId],
                            p_updatedAt := now\<rparr>)
                    (problems db1) of
               Inl e \<Rightarrow> (db1, Inl e)
             | Inr ps \<Rightarrow> (db1\<lparr>problems := ps\<rparr>, Inr (''Testcase created successfully!'', testcaseId)))"

record updateTestCaseArgs =
  ut_testcaseId :: string
  ut_input :: "string option"
  ut_output :: "string option"
  ut_isPublic :: "bool option"

definition updateTestCase :: "db \<Rightarrow> auth \<Rightarrow> updateTestCaseArgs \<Rightarrow> db \<times> (error + string)" where
  "updateTestCase db auth args =
     try_catch
       (case first (filter (\<lambda>t. t_testcaseId t = ut_testcaseId args) (testcases db)) of
          None \<Rightarrow> (db, Inl (ConvexError ''Test case not found''))
        | Some testcase \<Rightarrow>
            (case get p_id (problems db) (t_problemId testcase) of
               None \<Rightarrow> (db, Inl (ConvexError ''Associated problem not found''))
             | Some problem \<Rightarrow>
                 (case auth of
                    Inl e \<Rightarrow> (db, Inl e)
                  | Inr None \<Rightarrow> (db, Inl (TypeError ''Cannot read properties of null''))
                  | Inr (Some user) \<Rightarrow>
                      if p_creatorId problem \<noteq> u_id user \<and> u_role user \<noteq> ADMIN
                      then (db, Inl (ConvexError ''Permission denied''))
                      else
                        (case patch t_id (t_id testcase)
                                (\<lambda>t. t\<lparr>t_input := (case ut_input args of Some i \<Rightarrow> i | None \<Rightarrow> t_input t),
                                        t_output := (case ut_output args of Some out \<Rightarrow> out | None \<Rightarrow> t_output t),
                                        t_isPublic :=
                                          (case ut_isPublic args of Some b \<Rightarrow> b | None \<Rightarrow> t_isPublic t)\<rparr>)
                                (testcases db) of
                           Inl e \<Rightarrow> (db, Inl e)
                         | Inr ts \<Rightarrow> (db\<lparr>testcases := ts\<rparr>, Inr ''Successfully updated testcase.'')))))
       ''Something went wrong. Try again later!''"

text \<open>
  \<open>deleteTestCase\<close> returns \<open>{ success: true }\<close>, here \<open>Inr True\<close>, or the
  message of its \<open>catch\<close>, here \<open>Inl\<close>.
\<close>

definition deleteTestCase :: "db \<Rightarrow> auth \<Rightarrow> int \<Rightarrow> string \<Rightarrow> db \<times> (error + (string + bool))" where
  "deleteTestCase db auth now testcaseId =
     try_catch
       (case first (filter (\<lambda>t. t_testcaseId t = testcaseId) (testcases db)) of
          None \<Rightarrow> (db, Inl (ConvexError ''Test case not found''))
        | Some testcase \<Rightarrow>
            (case get p_id (problems db) (t_problemId testcase) of
               None \<Rightarrow> (db, Inl (ConvexError ''Associated problem not found''))
             | Some problem \<Rightarrow>
                 (case auth of
                    Inl e \<Rightarrow> (db, Inl e)
                  | Inr None \<Rightarrow> (db, Inl (TypeError ''Cannot read properties of null''))
                  | Inr (Some user) \<Rightarrow>
                      if p_creatorId problem \<noteq> u_id user \<and> u_role user \<noteq> ADMIN
                      then (db, Inl (ConvexError ''Permission denied''))
                      else
                        let updatedTestcases = filter (\<lambda>i. i \<noteq> t_id testcase) (p_testcases problem)
                        in
                        (case patch p_id (p_id problem)
                                (\<lambda>p. p\<lparr>p_testcases := updatedTestcases, p_updatedAt := now\<rparr>)
                                (problems db) of
                           Inl e \<Rightarrow> (db, Inl e)
                         | Inr ps \<Rightarrow>
                             let db1 = db\<lparr>problems := ps\<rparr> in
                             (case delete t_id (t_id testcase) (testcases db1) of
                                Inl e \<Rightarrow> (db1, Inl e)
                              | Inr ts \<Rightarrow> (db1\<lparr>testcases := ts\<rparr>, Inr (Inr True)))))))
       (Inl ''Something went wrong. Try again later!'')"

record bulkTestcase =
  bt_input :: string
  bt_output :: string
  bt_isPublic :: bool

text \<open>
  The loop of \<open>bulkCreateTestCases\<close>. The \<open>k\<close>-th pass reads the random string
  \<open>rnd k\<close> and inserts under the identity \<open>newId k\<close>; it returns the store and the
  identities in \<open>createdTestCases\<close>.
\<close>

fun insertTestCases ::
  "db \<Rightarrow> id \<Rightarrow> int \<Rightarrow> (nat \<Rightarrow> string) \<Rightarrow> (nat \<Rightarrow> id) \<Rightarrow> nat \<Rightarrow> bulkTestcase list \<Rightarrow> db \<times> id list" where
  "insertTestCases db problem_id now rnd newId k [] = (db, [])"
| "insertTestCases db problem_id now rnd newId k (tc # tcs) =
     (let testcaseId = ''TC_'' @ show_int now @ ''_'' @ rnd k;
          testcaseDocId = newId k;
          db1 = db\<lparr>testcases := testcases db @
            [\<lparr>t_id = testcaseDocId,
              t_testcaseId = testcaseId,
              t_input = bt_input tc,
              t_output = bt_output tc,
              t_isPublic = bt_isPublic tc,
              t_problemId = problem_id\<rparr>]\<rparr>;
          (db2, created) = insertTestCases db1 problem_id now rnd newId (k + 1) tcs
      in (db2, testcaseDocId # created))"

definition bulkCreateTestCases ::
  "db \<Rightarrow> auth \<Rightarrow> int \<Rightarrow> (nat \<Rightarrow> string) \<Rightarrow> (nat \<Rightarrow> id) \<Rightarrow> string \<Rightarrow> bulkTestcase list
     \<Rightarrow> db \<times> (error + string \<times> bool)" where
  "bulkCreateTestCases db auth now rnd newId problemId tcs =
     try_catch
       (case canModifyProblem db auth problemId of
          Inl e \<Rightarrow> (db, Inl e)
        | Inr (user, problem) \<Rightarrow>
            (case insertTestCases db (p_id problem) now rnd newId 0 tcs of
               (db1, createdTestCases) \<Rightarrow>
                 (case patch p_id (p_id problem)
                         (\<lambda>p. p\<lparr>p_testcases := p_testcases problem @ createdTestCases,
                                 p_updatedAt := now\<rparr>)
                         (problems db1) of
                    Inl e \<Rightarrow> (db1, Inl e)
                  | Inr ps \<Rightarrow>
                      (db1\<lparr>problems := ps\<rparr>,
                       Inr (''Succesfully created '' @ show_nat (length createdTestCases) @ '' tescases'',
                            True)))))
       (''Something went wrong. Try again later!'', False)"

record createProblemArgs =
  cpr_title :: string
  cpr_description :: string
  cpr_timeLimit :: int
  cpr_memoryLimit :: int
  cpr_difficulty :: "difficulty option"
  cpr_tags :: "string list option"
  cpr_sampleInput :: "string option"
  cpr_sampleOutput :: "string option"

text \<open>
  \<open>createProblem\<close> returns a message and, when it succeeded, the new \<open>problemId\<close>.
  It reads \<open>user._id\<close> while building the document, before the insert.
\<close>

definition createProblem ::
  "db \<Rightarrow> auth \<Rightarrow> int \<Rightarrow> string \<Rightarrow> id \<Rightarrow> createProblemArgs \<Rightarrow> db \<times> (error + string \<times> string option)" where
  "createProblem db auth now rnd newId args =
     try_catch
       (case auth of
          Inl e \<Rightarrow> (db, Inl e)
        | Inr None \<Rightarrow> (db, Inl (TypeError ''Cannot read properties of null''))
        | Inr (Some user) \<Rightarrow>
            let problemId = ''PROB_'' @ show_int now @ ''_'' @ rnd;
                problemDocId = newId;
                db1 = db\<lparr>problems := problems db @
                  [\<lparr>p_id = problemDocId,
                    p_problemId = problemId,
                    p_title = cpr_title args,
                    p_description = cpr_description args,
                    p_creatorId = u_id user,
                    p_testcases = [],
                    p_contests = [],
                    p_submissions = [],
                    p_updatedAt = now,
                    p_timeLimit = cpr_timeLimit args,
                    p_memoryLimit = cpr_memoryLimit args,
                    p_difficulty = Some (case cpr_difficulty args of Some d \<Rightarrow> d | None \<Rightarrow> MEDIUM),
                    p_tags = Some (case cpr_tags args of Some ts \<Rightarrow> ts | None \<Rightarrow> []),
                    p_sampleInput = cpr_sampleInput args,
                    p_sampleOutput = cpr_sampleOutput args\<rparr>]\<rparr>
            in case patch u_id (u_id user)
                      (\<lambda>u. u\<lparr>u_createdProblems := u_createdProblems user @ [problemDocId]\<rparr>)
                      (users db1) of
                 Inl e \<Rightarrow> (db1, Inl e)
               | Inr us \<Rightarrow> (db1\<lparr>users := us\<rparr>, Inr (''Problem added successfully!'', Some problemId)))
       (''Something went wrong. Try again later!'', None)"

record editProblemArgs =
  ep_problemId :: string
  ep_title :: "string option"
  ep_description :: "string option"
  ep_timeLimit :: "int option"
  ep_memoryLimit :: "int option"
  ep_difficulty :: "difficulty option"
  ep_tags :: "string list option"
  ep_sampleInput :: "string option"
  ep_sampleOutput :: "string option"

definition getProblemForEdit :: "db \<Rightarrow> auth \<Rightarrow> int \<Rightarrow> editProblemArgs \<Rightarrow> db \<times> (error + string)" where
  "getProblemForEdit db auth now args =
     try_catch
       (case auth of
          Inl e \<Rightarrow> (db, Inl e)
        | Inr user \<Rightarrow>
            (case first (filter (\<lambda>p. p_problemId p = ep_problemId args) (problems db)) of
               None \<Rightarrow> (db, Inl (ConvexError ''Problem not found''))
             | Some problem \<Rightarrow>
                 (case user of
                    None \<Rightarrow> (db, Inl (TypeError ''Cannot read properties of null''))
                  | Some u \<Rightarrow>
                      if p_creatorId problem \<noteq> u_id u \<and> u_role u \<noteq> ADMIN
                      then (db, Inl (ConvexError ''Permission denied''))
                      else
                        (case patch p_id (p_id problem)
                                (\<lambda>p. p\<lparr>p_updatedAt := now,
                                        p_title := (case ep_title args of Some t \<Rightarrow> t | None \<Rightarrow> p_title p),
                                        p_description :=
                                          (case ep_description args of Some d \<Rightarrow> d | None \<Rightarrow> p_description p),
                                        p_timeLimit :=
                                          (case ep_timeLimit args of Some l \<Rightarrow> l | None \<Rightarrow> p_timeLimit p),
                                        p_memoryLimit :=
                                          (case ep_memoryLimit args of Some l \<Rightarrow> l | None \<Rightarrow> p_memoryLimit p),
                                        p_difficulty :=
                                          (case ep_difficulty args of Some d \<Rightarrow> Some d | None \<Rightarrow> p_difficulty p),
                                        p_tags := (case ep_tags args of Some ts \<Rightarrow> Some ts | None \<Rightarrow> p_tags p),
                                        p_sampleInput :=
                                          (case ep_sampleInput args of Some i \<Rightarrow> Some i | None \<Rightarrow> p_sampleInput p),
                                        p_sampleOutput :=
                                          (case ep_sampleOutput args of
                                             Some out \<Rightarrow> Some out | None \<Rightarrow> p_sampleOutput p)\<rparr>)
                                (problems db) of
                           Inl e \<Rightarrow> (db, Inl e)
                         | Inr ps \<Rightarrow> (db\<lparr>problems := ps\<rparr>, Inr ''Problem updated successfully'')))))
       ''Something went wrong. Try again later!''"

text \<open>The loop of \<open>deleteProblem\<close> over \<open>problem.testcases\<close>.\<close>

fun deleteTestcases :: "db \<Rightarrow> id list \<Rightarrow> db \<times> (error + unit)" where
  "deleteTestcases db [] = (db, Inr ())"
| "deleteTestcases db (testcaseId # rest) =
     (case delete t_id testcaseId (testcases db) of
        Inl e \<Rightarrow> (db, Inl e)
      | Inr ts \<Rightarrow> deleteTestcases (db\<lparr>testcases := ts\<rparr>) rest)"

definition deleteProblem :: "db \<Rightarrow> auth \<Rightarrow> string \<Rightarrow> db \<times> (error + string)" where
  "deleteProblem db auth problemId =
     try_catch
       (case auth of
          Inl e \<Rightarrow> (db, Inl e)
        | Inr user \<Rightarrow>
            (case first (filter (\<lambda>p. p_problemId p = problemId) (problems db)) of
               None \<Rightarrow> (db, Inl (ConvexError ''Problem not found''))
             | Some problem \<Rightarrow>
                 (case user of
                    None \<Rightarrow> (db, Inl (TypeError ''Cannot read properties of null''))
                  | Some u \<Rightarrow>
                      if p_creatorId problem \<noteq> u_id u \<and> u_role u \<noteq> ADMIN
                      then (db, Inl (ConvexError ''Permission denied''))
                      else
                        (case deleteTestcases db (p_testcases problem) of
                           (db1, Inl e) \<Rightarrow> (db1, Inl e)
                         | (db1, Inr _) \<Rightarrow>
                             (case (case get u_id (users db1) (p_creatorId problem) of
                                      None \<Rightarrow> Inr (users db1)
                                    | Some creator \<Rightarrow>
                                        patch u_id (u_id creator)
                                          (\<lambda>c. c\<lparr>u_createdProblems :=
                                                    filter (\<lambda>i. i \<noteq> p_id problem)
                                                      (u_createdProblems creator)\<rparr>)
                                          (users db1)) of
                                Inl e \<Rightarrow> (db1, Inl e)
                              | Inr us \<Rightarrow>
                                  let db2 = db1\<lparr>users := us\<rparr> in
                                  (case delete p_id (p_id problem) (problems db2) of
                                     Inl e \<Rightarrow> (db2, Inl e)
                                   | Inr ps \<Rightarrow>
                                       (db2\<lparr>problems := ps\<rparr>, Inr ''Problem deleted successfully!'')))))))
       ''Something went wrong. Try again later!''"

section \<open>Transactions\<close>

text \<open>
  A Convex mutation runs as a transaction: when the handler throws, none of its writes
  is kept. \<open>commit\<close> gives the store after a call.
\<close>

definition commit :: "db \<Rightarrow> db \<times> (error + 'a) \<Rightarrow> db" where
  "commit db r = (case snd r of Inl e \<Rightarrow> db | Inr v \<Rightarrow> fst r)"

datatype mutation =
  SyncUser nat id syncUserArgs
| CreateContest auth int string id createContestArgs
| UpdateContest auth int updateContestArgs
| DeleteContest auth string
| JoinContest auth int string
| LeaveContest auth int string
| CreateTestCase auth int string id createTestCaseArgs
| UpdateTestCase auth updateTestCaseArgs
| DeleteTestCase auth int string
| BulkCreateTestCases auth int "nat \<Rightarrow> string" "nat \<Rightarrow> id" string "bulkTestcase list"
| CreateProblem auth int string id createProblemArgs
| GetProblemForEdit auth int editProblemArgs
| DeleteProblem auth string

fun run :: "db \<Rightarrow> mutation \<Rightarrow> db" where
  "run db (SyncUser randomNumber newId args) = commit db (syncUser db randomNumber newId args)"
| "run db (CreateContest auth now rnd newId args) = commit db (createContest db auth now rnd newId args)"
| "run db (UpdateContest auth now args) = commit db (updateContest db auth now args)"
| "run db (DeleteContest auth contestId) = commit db (deleteContest db auth contestId)"
| "run db (JoinContest auth now contestId) = commit db (joinContest db auth now contestId)"
| "run db (LeaveContest auth now contestId) = commit db (leaveContest db auth now contestId)"
| "run db (CreateTestCase auth now rnd newId args) = commit db (createTestCase db auth now rnd newId args)"
| "run db (UpdateTestCase auth args) = commit db (updateTestCase db auth args)"
| "run db (DeleteTestCase auth now testcaseId) = commit db (deleteTestCase db auth now testcaseId)"
| "run db (BulkCreateTestCases auth now rnd newId problemId tcs) =
     commit db (bulkCreateTestCases db auth now rnd newId problemId tcs)"
| "run db (CreateProblem auth now rnd newId args) = commit db (createProblem db auth now rnd newId args)"
| "run db (GetProblemForEdit auth now args) = commit db (getProblemForEdit db auth now args)"
| "run db (DeleteProblem auth problemId) = commit db (deleteProblem db auth problemId)"

text \<open>
  The store gives every inserted document an identity that no document of the table
  has. \<open>fresh\<close> says so of the identity of a new contest, and \<open>distinct_ids\<close>
  that no two contests share one.
\<close>

fun fresh :: "db \<Rightarrow> mutation \<Rightarrow> bool" where
  "fresh db (CreateContest auth now rnd newId args) = (newId \<notin> set (map c_id (contests db)))"
| "fresh db m = True"

definition distinct_ids :: "db \<Rightarrow> bool" where
  "distinct_ids db = distinct (map c_id (contests db))"

definition capacity_ok :: "db \<Rightarrow> bool" where
  "capacity_ok db = (\<forall>c \<in> set (contests db). js_le (js_length (c_users c)) (c_maxSize c))"

text \<open>
  A whole number; a contest whose \<open>maxSize\<close> is a whole number that its participants do
  not exceed; a mutation whose \<open>maxSize\<close> argument, when it has one, is a whole number.
\<close>

definition whole :: "number \<Rightarrow> bool" where
  "whole n = (case n of Finite x \<Rightarrow> rat_of_int \<lfloor>x\<rfloor> = x | _ \<Rightarrow> False)"

definition bounded :: "contest \<Rightarrow> bool" where
  "bounded c = (whole (c_maxSize c) \<and> js_le (js_length (c_users c)) (c_maxSize c))"

definition whole_capacity_ok :: "db \<Rightarrow> bool" where
  "whole_capacity_ok db = (\<forall>c \<in> set (contests db). bounded c)"

fun whole_maxSize :: "mutation \<Rightarrow> bool" where
  "whole_maxSize (CreateContest auth now rnd newId args) = whole (cc_maxSize args)"
| "whole_maxSize (UpdateContest auth now args) =
     (case uc_maxSize args of Some m \<Rightarrow> whole m | None \<Rightarrow> True)"
| "whole_maxSize m = True"

text \<open>The stores that the mutations build from the empty store.\<close>

definition emptyStore :: db where
  "emptyStore = \<lparr>users = [], problems = [], problemStats = [], testcases = [],
                  contestProblems = [], contests = [], contestSubmissions = []\<rparr>"

inductive reachable :: "db \<Rightarrow> bool" where
  reachable_empty: "reachable emptyStore"
| reachable_run: "reachable db \<Longrightarrow> fresh db m \<Longrightarrow> reachable (run db m)"

section \<open>The verdict aggregator\<close>

datatype verdict =
  ACCEPTED | WRONG_ANSWER | TIME_LIMIT_EXCEEDED | MEMORY_LIMIT_EXCEEDED
| COMPILATION_ERROR | RUNTIME_ERROR

text \<open>
  Modelled from the spec: the outcome of one terminal Execution. The sources declare the
  verdict literals of a submission (the schema) and hold nothing that computes them, so
  the aggregator follows section 4.3 of the specification. An outcome is a compile-time
  failure (step 1), PASS, or one of the four failures of step 2.
\<close>

datatype outcome =
  PASS | COMPILE_FAILURE | FAIL_WRONG_ANSWER | FAIL_TIME_LIMIT | FAIL_MEMORY_LIMIT
| FAIL_RUNTIME_ERROR

text \<open>Modelled from the spec: the verdict label of an outcome (section 4.3, steps 1 and 2).\<close>

fun label :: "outcome \<Rightarrow> verdict" where
  "label PASS = ACCEPTED"
| "label COMPILE_FAILURE = COMPILATION_ERROR"
| "label FAIL_WRONG_ANSWER = WRONG_ANSWER"
| "label FAIL_TIME_LIMIT = TIME_LIMIT_EXCEEDED"
| "label FAIL_MEMORY_LIMIT = MEMORY_LIMIT_EXCEEDED"
| "label FAIL_RUNTIME_ERROR = RUNTIME_ERROR"

text \<open>
  Modelled from the spec: "the first failing testcase in order" of step 4, the
  Executions being listed in testcase order.
\<close>

fun firstFailing :: "outcome list \<Rightarrow> outcome option" where
  "firstFailing [] = None"
| "firstFailing (x # xs) = (if x \<noteq> PASS then Some x else firstFailing xs)"

text \<open>Modelled from the spec: the aggregator's output, without the score of step 3.\<close>

record aggregate =
  ag_verdict :: verdict
  ag_passed :: nat
  ag_total :: nat

text \<open>
  Modelled from the spec: the VerdictAggregator of section 4.3, which the sources do not
  hold. Step 1: a compile-time failure anywhere gives \<open>COMPILATION_ERROR\<close> with
  \<open>passed = 0\<close>. Step 3: \<open>passed\<close> counts the PASS outcomes and \<open>total\<close> the
  Executions. Step 4: the verdict is \<open>ACCEPTED\<close> iff \<open>passed = total\<close>, otherwise the
  verdict of the first failing testcase in order.
\<close>

definition VerdictAggregator :: "outcome list \<Rightarrow> aggregate" where
  "VerdictAggregator executions =
     (if COMPILE_FAILURE \<in> set executions
      then \<lparr>ag_verdict = COMPILATION_ERROR, ag_passed = 0, ag_total = length executions\<rparr>
      else
        let passed = length (filter (\<lambda>x. x = PASS) executions);
            total = length executions
        in \<lparr>ag_verdict =
               (if passed = total then ACCEPTED
                else (case firstFailing executions of
                        Some x \<Rightarrow> label x
                      | None \<Rightarrow> ACCEPTED)),
             ag_passed = passed,
             ag_total = total\<rparr>)"

section \<open>The phase as the specification words it\<close>


section \<open>A small store\<close>

text \<open>Two users, one contest with a submission, one problem with a public and a private testcase.\<close>

definition alice :: user where
  "alice = \<lparr>u_id = ''u1'', u_userId = ''clerk_alice'', u_email = ''alice@example.org'',
            u_name = ''Alice'', u_username = ''Alice_123456'', u_isVerified = False,
            u_role = USER, u_createdContests = [''c1''], u_createdProblems = [''p1''],
            u_participatedContests = [], u_solvedProblems = []\<rparr>"

definition bob :: user where
  "bob = \<lparr>u_id = ''u2'', u_userId = ''clerk_bob'', u_email = ''bob@example.org'',
          u_name = ''Bob'', u_username = ''Bob_654321'', u_isVerified = False,
          u_role = USER, u_createdContests = [], u_createdProblems = [],
          u_participatedContests = [''c1''], u_solvedProblems = []\<rparr>"

definition contest1 :: contest where
  "contest1 = \<lparr>c_id = ''c1'', c_contestId = ''contest_1'', c_name = ''Round 1'',
               c_description = ''First round'', c_creatorId = ''u1'', c_startTime = 100,
               c_endTime = 200, c_isPublic = True, c_maxSize = Finite 2, c_problems = [],
               c_users = [''u2''], c_updatedAt = 50\<rparr>"

definition submission1 :: contestSubmission where
  "submission1 = \<lparr>cs_id = ''s1'', cs_contestSubmissionId = ''CS_1'', cs_contestId = ''c1'',
                  cs_userId = ''u2'', cs_problemId = ''p1'', cs_submissionId = ''sub1'',
                  cs_points = 100, cs_penalty = 0, cs_submissionTime = 150\<rparr>"

definition openTestcase :: testcase where
  "openTestcase = \<lparr>t_id = ''t1'', t_testcaseId = ''TC_1'', t_input = ''1 2'', t_output = ''3'',
                   t_isPublic = True, t_problemId = ''p1''\<rparr>"

definition hiddenTestcase :: testcase where
  "hiddenTestcase = \<lparr>t_id = ''t2'', t_testcaseId = ''TC_2'', t_input = ''5 7'', t_output = ''12'',
                     t_isPublic = False, t_problemId = ''p1''\<rparr>"

definition problem1 :: problem where
  "problem1 = \<lparr>p_id = ''p1'', p_problemId = ''PROB_1'', p_title = ''Sum'',
               p_description = ''Add two numbers'', p_creatorId = ''u1'',
               p_testcases = [''t1'', ''t2''], p_contests = [], p_submissions = [],
               p_updatedAt = 10, p_timeLimit = 1, p_memoryLimit = 64,
               p_difficulty = Some EASY, p_tags = None, p_sampleInput = None,
               p_sampleOutput = None\<rparr>"

definition stats1 :: problemStats where
  "stats1 = \<lparr>ps_id = ''ps1'', ps_problemId = ''p1'', ps_totalSubmissions = Finite 3,
             ps_acceptedSubmissions = Finite 1, ps_acceptanceRate = Finite 0\<rparr>"

definition store1 :: db where
  "store1 = \<lparr>users = [alice, bob], problems = [problem1], problemStats = [stats1],
             testcases = [openTestcase, hiddenTestcase], contestProblems = [],
             contests = [contest1], contestSubmissions = [submission1]\<rparr>"

definition pastContestArgs :: createContestArgs where
  "pastContestArgs = \<lparr>cc_name = ''Late'', cc_description = ''Starts in the past'',
                      cc_startTime = 5, cc_endTime = 20, cc_isPublic = True,
                      cc_maxSize = Finite 10, cc_addSelf = True\<rparr>"

definition bobArgs :: syncUserArgs where
  "bobArgs = \<lparr>su_userId = ''clerk_bob'', su_email = ''bob@example.org'', su_name = ''Bob''\<rparr>"

text \<open>A store whose contest is full, a third user, and an update that asks for a smaller contest.\<close>

definition fullStore :: db where
  "fullStore = store1\<lparr>contests := [contest1\<lparr>c_users := [''u2'', ''u1'']\<rparr>]\<rparr>"

definition carol :: user where
  "carol = \<lparr>u_id = ''u3'', u_userId = ''clerk_carol'', u_email = ''carol@example.org'',
            u_name = ''Carol'', u_username = ''Carol_111111'', u_isVerified = False,
            u_role = USER, u_createdContests = [], u_createdProblems = [],
            u_participatedContests = [], u_solvedProblems = []\<rparr>"

definition shrinkArgs :: updateContestArgs where
  "shrinkArgs = \<lparr>uc_contestId = ''contest_1'', uc_name = None, uc_description = None,
                 uc_startTime = None, uc_endTime = None, uc_isPublic = None,
                 uc_maxSize = Some (Finite 1)\<rparr>"

text \<open>
  Statistics for \<open>problem1\<close> that the schema admits: no submission yet, a percentage
  half-way between two hundredths, a negative counter, and infinite counters.
\<close>

definition emptyStats :: problemStats where
  "emptyStats = \<lparr>ps_id = ''ps1'', ps_problemId = ''p1'', ps_totalSubmissions = Finite 0,
                 ps_acceptedSubmissions = Finite 0, ps_acceptanceRate = Finite 0\<rparr>"

definition tieStats :: problemStats where
  "tieStats = \<lparr>ps_id = ''ps1'', ps_problemId = ''p1'', ps_totalSubmissions = Finite 160,
               ps_acceptedSubmissions = Finite 23, ps_acceptanceRate = Finite 0\<rparr>"

definition negativeStats :: problemStats where
  "negativeStats = \<lparr>ps_id = ''ps1'', ps_problemId = ''p1'', ps_totalSubmissions = Finite 1,
                    ps_acceptedSubmissions = Finite (- 1), ps_acceptanceRate = Finite 0\<rparr>"

definition infiniteStats :: problemStats where
  "infiniteStats = \<lparr>ps_id = ''ps1'', ps_problemId = ''p1'', ps_totalSubmissions = PosInfinity,
                    ps_acceptedSubmissions = PosInfinity, ps_acceptanceRate = Finite 0\<rparr>"

text \<open>
  The arguments of a contest whose \<open>maxSize\<close> is one half, the arguments with which
  Carol is synchronised, and a store whose contest has a \<open>maxSize\<close> of one and a half.
\<close>

definition halfArgs :: createContestArgs where
  "halfArgs = \<lparr>cc_name = ''Duel'', cc_description = ''One against one'',
               cc_startTime = 300, cc_endTime = 400, cc_isPublic = True,
               cc_maxSize = Finite (1 / 2), cc_addSelf = True\<rparr>"

definition carolArgs :: syncUserArgs where
  "carolArgs = \<lparr>su_userId = ''clerk_carol'', su_email = ''carol@example.org'',
                 su_name = ''Carol''\<rparr>"

definition sesquiStore :: db where
  "sesquiStore = store1\<lparr>contests := [contest1\<lparr>c_maxSize := Finite (3 / 2)\<rparr>]\<rparr>"

section \<open>Facts about the store primitives\<close>

lemma unique_filter_mem:
  assumes "unique (filter P xs) = Inr (Some y)"
  shows "filter P xs = [y]"
  using assms by (auto simp: unique_def split: list.splits)

lemma filter_single_mem:
  assumes "filter P xs = [y]" and "x \<in> set xs" and "P x"
  shows "x = y"
proof -
  from assms(2,3) have "x \<in> set (filter P xs)" by simp
  with assms(1) show ?thesis by simp
qed

lemma unique_filter_None:
  assumes "unique (filter P xs) = Inr None" and "x \<in> set xs" and "P x"
  shows False
proof -
  from assms(1) have "filter P xs = []" by (auto simp: unique_def split: list.splits)
  with assms(2,3) show False by (auto simp: filter_empty_conv)
qed

lemma unique_found_mem:
  assumes "unique (filter P xs) = Inr (Some y)"
  shows "y \<in> set xs"
proof -
  from assms have "filter P xs = [y]" by (rule unique_filter_mem)
  then have "y \<in> set (filter P xs)" by simp
  then show ?thesis by simp
qed

lemma first_filter_mem:
  assumes "x \<in> set xs" and "P x"
  shows "\<exists>y. first (filter P xs) = Some y"
proof -
  from assms have "filter P xs \<noteq> []" by (auto simp: filter_empty_conv)
  then show ?thesis by (cases "filter P xs") (simp_all add: first_def)
qed

lemma first_None_iff: "first xs = None \<longleftrightarrow> xs = []"
  by (cases xs) (simp_all add: first_def)

lemma first_Some_mem:
  assumes "first xs = Some y"
  shows "y \<in> set xs"
  using assms by (cases xs) (simp_all add: first_def)

lemma patch_keeps_other:
  assumes "patch key i f tbl = Inr tbl'" and "d \<in> set tbl" and "key d \<noteq> i"
  shows "d \<in> set tbl'"
  using assms by (auto simp: patch_def split: if_splits)

lemma distinct_key_neq:
  assumes "distinct (map key tbl)" and "x \<in> set tbl" and "y \<in> set tbl" and "x \<noteq> y"
  shows "key x \<noteq> key y"
  using assms by (meson distinct_map inj_onD)

section \<open>Leaving a contest\<close>

lemma leaveContest_throws_after_start:
  assumes "c \<in> set (contests db)" and "now \<ge> c_startTime c" and "c_contestId c = contestId"
  shows "\<exists>e. leaveContest db auth now contestId = (db, Inl e)"
proof (cases auth)
  case (Inl e)
  then show ?thesis by (simp add: leaveContest_def)
next
  case (Inr uo)
  show ?thesis
  proof (cases uo)
    case None
    with Inr show ?thesis by (simp add: leaveContest_def)
  next
    case (Some user)
    show ?thesis
    proof (cases "unique (filter (\<lambda>c. c_contestId c = contestId) (contests db))")
      case (Inl e)
      with Inr Some show ?thesis by (simp add: leaveContest_def)
    next
      case inr: (Inr co)
      show ?thesis
      proof (cases co)
        case None
        with inr assms(1,3) have False by (auto dest: unique_filter_None)
        then show ?thesis ..
      next
        case found: (Some contest)
        with inr have "filter (\<lambda>c. c_contestId c = contestId) (contests db) = [contest]"
          by (auto intro: unique_filter_mem)
        from filter_single_mem [OF this assms(1)] assms(3) have "c = contest" by simp
        with assms(2) have "now \<ge> c_startTime contest" by simp
        with Inr Some inr found show ?thesis by (simp add: leaveContest_def)
      qed
    qed
  qed
qed

lemma leaveContest_contests_cases:
  "contests (commit db (leaveContest db auth now contestId)) = contests db \<or>
   (\<exists>contest f.
      unique (filter (\<lambda>c. c_contestId c = contestId) (contests db)) = Inr (Some contest) \<and>
      \<not> now \<ge> c_startTime contest \<and>
      patch c_id (c_id contest) f (contests db) =
        Inr (contests (commit db (leaveContest db auth now contestId))))"
  by (auto simp: leaveContest_def commit_def Let_def split: sum.splits option.splits if_splits)

lemma leaveContest_keeps_started:
  assumes "c \<in> set (contests db)" and "now \<ge> c_startTime c" and "distinct_ids db"
  shows "c \<in> set (contests (commit db (leaveContest db auth now contestId)))"
proof -
  let ?cs' = "contests (commit db (leaveContest db auth now contestId))"
  from leaveContest_contests_cases [of db auth now contestId]
  consider "?cs' = contests db"
    | contest f where
        "unique (filter (\<lambda>c. c_contestId c = contestId) (contests db)) = Inr (Some contest)"
        "\<not> now \<ge> c_startTime contest"
        "patch c_id (c_id contest) f (contests db) = Inr ?cs'"
    by blast
  then show ?thesis
  proof cases
    case 1
    with assms(1) show ?thesis by simp
  next
    case 2
    from 2(1) have mem: "contest \<in> set (contests db)" by (rule unique_found_mem)
    from 2(2) assms(2) have "c \<noteq> contest" by auto
    with assms(1,3) mem have "c_id c \<noteq> c_id contest"
      unfolding distinct_ids_def by (metis distinct_key_neq)
    with 2(3) assms(1) show ?thesis by (metis patch_keeps_other)
  qed
qed

text \<open>
  Claim C5. Once a contest has started (\<open>now \<ge> startTime\<close>), \<open>leaveContest\<close> on it
  throws, and the store at the throw is the store it was called on: the contest's
  \<open>users\<close> array and the caller's \<open>participatedContests\<close> array are untouched.
  A call of \<open>leaveContest\<close> for any contest leaves every started contest in the
  committed store as it was, so no started contest loses a participant.
\<close>

theorem leaveContest_after_start:
  assumes "c \<in> set (contests db)" and "now \<ge> c_startTime c"
  shows "(c_contestId c = contestId \<longrightarrow> (\<exists>e. leaveContest db auth now contestId = (db, Inl e))) \<and>
         (distinct_ids db \<longrightarrow> c \<in> set (contests (commit db (leaveContest db auth now contestId))))"
  using assms leaveContest_throws_after_start leaveContest_keeps_started by blast

theorem leaveContest_after_start_witness:
  "contest1 \<in> set (contests store1) \<and> 150 \<ge> c_startTime contest1 \<and>
   c_contestId contest1 = ''contest_1'' \<and> distinct_ids store1 \<and>
   (\<exists>e. leaveContest store1 (Inr (Some bob)) 150 ''contest_1'' = (store1, Inl e)) \<and>
   contest1 \<in> set (contests (commit store1 (leaveContest store1 (Inr (Some bob)) 150 ''contest_1'')))"
proof -
  have h1: "contest1 \<in> set (contests store1)" by (simp add: store1_def)
  have h2: "150 \<ge> c_startTime contest1" by (simp add: contest1_def)
  have h3: "c_contestId contest1 = ''contest_1''" by (simp add: contest1_def)
  have h4: "distinct_ids store1" by (simp add: distinct_ids_def store1_def)
  from leaveContest_after_start [OF h1 h2, of "''contest_1''" "Inr (Some bob)"] h1 h2 h3 h4
  show ?thesis by blast
qed

section \<open>Deleting a contest\<close>

text \<open>
  Claim C6. When a contest has a ContestSubmission row, \<open>deleteContest\<close> on it throws
  and the store at the throw is the store it was called on: the contest, its
  contestProblems and every ContestSubmission row are still there. For a caller who is
  the creator or an admin, on the only contest of that \<open>contestId\<close>, the error is
  "Cannot delete contest with existing submissions"; the other callers are turned away
  by an earlier check.
\<close>

theorem deleteContest_keeps_submitted_contest:
  assumes "c \<in> set (contests db)" and "c_contestId c = contestId"
    and "s \<in> set (contestSubmissions db)" and "cs_contestId s = c_id c"
  shows "\<exists>e. deleteContest db auth contestId = (db, Inl e) \<and>
           (\<forall>user. auth = Inr (Some user) \<and> (c_creatorId c = u_id user \<or> u_role user = ADMIN) \<and>
                   filter (\<lambda>d. c_contestId d = contestId) (contests db) = [c]
              \<longrightarrow> e = Error ''Cannot delete contest with existing submissions'')"
proof (cases auth)
  case (Inl e)
  then show ?thesis by (simp add: deleteContest_def)
next
  case (Inr uo)
  show ?thesis
  proof (cases uo)
    case None
    with Inr show ?thesis by (simp add: deleteContest_def)
  next
    case (Some user)
    show ?thesis
    proof (cases "unique (filter (\<lambda>c. c_contestId c = contestId) (contests db))")
      case (Inl e)
      then have "filter (\<lambda>d. c_contestId d = contestId) (contests db) \<noteq> [c]"
        by (auto simp: unique_def)
      with Inl Inr Some show ?thesis by (simp add: deleteContest_def)
    next
      case inr: (Inr co)
      show ?thesis
      proof (cases co)
        case None
        with inr assms(1,2) have False by (auto dest: unique_filter_None)
        then show ?thesis ..
      next
        case found: (Some contest)
        with inr have "filter (\<lambda>c. c_contestId c = contestId) (contests db) = [contest]"
          by (auto intro: unique_filter_mem)
        from filter_single_mem [OF this assms(1)] assms(2) have eq: "c = contest" by simp
        from assms(3,4) eq obtain y where
          "first (filter (\<lambda>s. cs_contestId s = c_id contest) (contestSubmissions db)) = Some y"
          using first_filter_mem [of s "contestSubmissions db" "\<lambda>s. cs_contestId s = c_id contest"]
          by auto
        with Inr Some inr found eq show ?thesis by (simp add: deleteContest_def Let_def)
      qed
    qed
  qed
qed

theorem deleteContest_keeps_submitted_contest_witness:
  "contest1 \<in> set (contests store1) \<and> c_contestId contest1 = ''contest_1'' \<and>
   submission1 \<in> set (contestSubmissions store1) \<and> cs_contestId submission1 = c_id contest1 \<and>
   (c_creatorId contest1 = u_id alice \<or> u_role alice = ADMIN) \<and>
   filter (\<lambda>d. c_contestId d = ''contest_1'') (contests store1) = [contest1] \<and>
   deleteContest store1 (Inr (Some alice)) ''contest_1'' =
     (store1, Inl (Error ''Cannot delete contest with existing submissions''))"
proof -
  have h1: "contest1 \<in> set (contests store1)" by (simp add: store1_def)
  have h2: "c_contestId contest1 = ''contest_1''" by (simp add: contest1_def)
  have h3: "submission1 \<in> set (contestSubmissions store1)" by (simp add: store1_def)
  have h4: "cs_contestId submission1 = c_id contest1" by (simp add: submission1_def contest1_def)
  have h5: "c_creatorId contest1 = u_id alice \<or> u_role alice = ADMIN"
    by (simp add: contest1_def alice_def)
  have h6: "filter (\<lambda>d. c_contestId d = ''contest_1'') (contests store1) = [contest1]"
    by (simp add: store1_def contest1_def)
  from deleteContest_keeps_submitted_contest [OF h1 h2 h3 h4, of "Inr (Some alice)"] h1 h2 h3 h4 h5 h6
  show ?thesis by auto
qed

section \<open>Creating a contest\<close>

text \<open>
  Claim C7. When \<open>startTime\<close> is earlier than the current time, or
  \<open>endTime \<le> startTime\<close>, or \<open>maxSize \<le> 0\<close>, \<open>createContest\<close> throws and the store at
  the throw is the store it was called on: no contest is inserted and no user document
  is patched. For an authenticated caller the error is one of the three validation
  errors.
\<close>

theorem createContest_rejects_before_writing:
  assumes "cc_startTime args < now \<or> cc_endTime args \<le> cc_startTime args \<or>
           js_le (cc_maxSize args) (Finite 0)"
  shows "\<exists>e. createContest db auth now rnd newId args = (db, Inl e) \<and>
             (\<forall>user. auth = Inr (Some user) \<longrightarrow>
                e \<in> {ConvexError ''Contest startTime cannot be in the past'',
                     ConvexError ''Contest end time must be after start time'',
                     ConvexError ''Max size must be positive''})"
  using assms
  by (auto simp: createContest_def split: sum.splits option.splits)

theorem createContest_rejects_before_writing_witness:
  "(cc_startTime pastContestArgs < 10 \<or> cc_endTime pastContestArgs \<le> cc_startTime pastContestArgs
      \<or> js_le (cc_maxSize pastContestArgs) (Finite 0)) \<and>
   (\<exists>e. createContest store1 (Inr (Some alice)) 10 ''k3x9a2b'' ''c2'' pastContestArgs = (store1, Inl e) \<and>
        e \<in> {ConvexError ''Contest startTime cannot be in the past'',
             ConvexError ''Contest end time must be after start time'',
             ConvexError ''Max size must be positive''})"
proof -
  have h: "cc_startTime pastContestArgs < 10 \<or> cc_endTime pastContestArgs \<le> cc_startTime pastContestArgs
      \<or> js_le (cc_maxSize pastContestArgs) (Finite 0)"
    by (simp add: pastContestArgs_def)
  from createContest_rejects_before_writing
         [OF h, of store1 "Inr (Some alice)" "''k3x9a2b''" "''c2''"] h
  show ?thesis by simp
qed

section \<open>Synchronising a user\<close>

lemma syncUser_existing:
  assumes "u \<in> set (users db)" and "u_userId u = su_userId args"
  shows "syncUser db randomNumber newId args = (db, Inr ())"
proof -
  from first_filter_mem [of u "users db" "\<lambda>u. u_userId u = su_userId args"] assms
  obtain y where "first (filter (\<lambda>u. u_userId u = su_userId args) (users db)) = Some y" by auto
  then show ?thesis by (simp add: syncUser_def Let_def)
qed

lemma syncUser_has_user:
  "\<exists>u \<in> set (users (fst (syncUser db randomNumber newId args))). u_userId u = su_userId args"
proof (cases "first (filter (\<lambda>u. u_userId u = su_userId args) (users db))")
  case None
  then show ?thesis by (simp add: syncUser_def Let_def)
next
  case (Some y)
  then have "y \<in> set (filter (\<lambda>u. u_userId u = su_userId args) (users db))"
    by (rule first_Some_mem)
  with Some show ?thesis by (auto simp: syncUser_def Let_def)
qed

lemma syncUser_count:
  "length (filter (\<lambda>u. u_userId u = uid) (users (fst (syncUser db randomNumber newId args))))
     \<le> max 1 (length (filter (\<lambda>u. u_userId u = uid) (users db)))"
  by (auto simp: syncUser_def Let_def first_None_iff)

text \<open>
  Claim C10. When a user document with the given \<open>userId\<close> exists, \<open>syncUser\<close> returns
  the store it was called on. So a second call with the same \<open>userId\<close>, whatever its
  other arguments, changes nothing after a first one, and a call never raises the
  number of documents of a \<open>userId\<close> above one.
\<close>

theorem syncUser_idempotent:
  "((\<exists>u \<in> set (users db). u_userId u = su_userId args) \<longrightarrow>
      syncUser db randomNumber newId args = (db, Inr ())) \<and>
   (su_userId args' = su_userId args \<longrightarrow>
      syncUser (fst (syncUser db randomNumber newId args)) randomNumber' newId' args' =
        (fst (syncUser db randomNumber newId args), Inr ())) \<and>
   length (filter (\<lambda>u. u_userId u = uid) (users (fst (syncUser db randomNumber newId args))))
     \<le> max 1 (length (filter (\<lambda>u. u_userId u = uid) (users db)))"
proof (intro conjI impI)
  assume "\<exists>u \<in> set (users db). u_userId u = su_userId args"
  then show "syncUser db randomNumber newId args = (db, Inr ())"
    by (auto intro: syncUser_existing)
next
  assume eq: "su_userId args' = su_userId args"
  from syncUser_has_user [of db randomNumber newId args] obtain u where
    "u \<in> set (users (fst (syncUser db randomNumber newId args)))" "u_userId u = su_userId args"
    by blast
  with eq show "syncUser (fst (syncUser db randomNumber newId args)) randomNumber' newId' args' =
        (fst (syncUser db randomNumber newId args), Inr ())"
    by (auto intro: syncUser_existing)
next
  show "length (filter (\<lambda>u. u_userId u = uid) (users (fst (syncUser db randomNumber newId args))))
     \<le> max 1 (length (filter (\<lambda>u. u_userId u = uid) (users db)))"
    by (rule syncUser_count)
qed

theorem syncUser_idempotent_witness:
  "(\<exists>u \<in> set (users store1). u_userId u = su_userId bobArgs) \<and>
   su_userId bobArgs = su_userId bobArgs \<and>
   syncUser store1 424242 ''u3'' bobArgs = (store1, Inr ()) \<and>
   syncUser (fst (syncUser store1 424242 ''u3'' bobArgs)) 515151 ''u4'' bobArgs =
     (fst (syncUser store1 424242 ''u3'' bobArgs), Inr ())"
proof -
  have h: "\<exists>u \<in> set (users store1). u_userId u = su_userId bobArgs"
    by (simp add: store1_def bob_def bobArgs_def)
  from syncUser_idempotent [of store1 bobArgs 424242 "''u3''" bobArgs 515151 "''u4''"] h
  show ?thesis by blast
qed

section \<open>The phase of a contest\<close>












section \<open>The verdict of a submission\<close>

lemma firstFailing_None_iff: "firstFailing xs = None \<longleftrightarrow> (\<forall>x \<in> set xs. x = PASS)"
  by (induction xs) auto

lemma firstFailing_Some_index:
  assumes "firstFailing xs = Some x"
  shows "\<exists>i < length xs. xs ! i = x \<and> x \<noteq> PASS \<and> (\<forall>j < i. xs ! j = PASS)"
  using assms
proof (induction xs)
  case Nil
  then show ?case by simp
next
  case (Cons a xs)
  show ?case
  proof (cases "a = PASS")
    case False
    with Cons.prems have "a = x" by simp
    with False have "0 < length (a # xs) \<and> (a # xs) ! 0 = x \<and> x \<noteq> PASS \<and> (\<forall>j < 0. (a # xs) ! j = PASS)"
      by simp
    then show ?thesis by blast
  next
    case True
    with Cons.prems have "firstFailing xs = Some x" by simp
    from Cons.IH [OF this] obtain i where
      i: "i < length xs" "xs ! i = x" "x \<noteq> PASS" "\<forall>j < i. xs ! j = PASS"
      by blast
    have "\<forall>j < Suc i. (a # xs) ! j = PASS"
    proof (intro allI impI)
      fix j assume "j < Suc i"
      with True i(4) show "(a # xs) ! j = PASS" by (cases j) auto
    qed
    with i have "Suc i < length (a # xs) \<and> (a # xs) ! Suc i = x \<and> x \<noteq> PASS \<and>
                 (\<forall>j < Suc i. (a # xs) ! j = PASS)"
      by simp
    then show ?thesis by blast
  qed
qed

lemma passed_eq_total_iff:
  "length (filter P xs) = length xs \<longleftrightarrow> (\<forall>x \<in> set xs. P x)"
proof (induction xs)
  case Nil
  show ?case by simp
next
  case (Cons a xs)
  have le: "length (filter P xs) \<le> length xs" by (rule length_filter_le)
  show ?case
  proof (cases "P a")
    case True
    with Cons show ?thesis by simp
  next
    case False
    from le have "length (filter P xs) \<noteq> Suc (length xs)" by linarith
    with False show ?thesis by simp
  qed
qed

lemma label_ACCEPTED_iff: "label x = ACCEPTED \<longleftrightarrow> x = PASS"
  by (cases x) simp_all

lemma aggregator_accepted_iff:
  assumes "COMPILE_FAILURE \<notin> set executions"
  shows "ag_verdict (VerdictAggregator executions) = ACCEPTED \<longleftrightarrow>
         (\<forall>x \<in> set executions. x = PASS)"
proof (cases "\<forall>x \<in> set executions. x = PASS")
  case True
  then have "length (filter (\<lambda>x. x = PASS) executions) = length executions"
    by (simp add: passed_eq_total_iff)
  with assms True show ?thesis by (simp add: VerdictAggregator_def Let_def)
next
  case False
  then have ne: "length (filter (\<lambda>x. x = PASS) executions) \<noteq> length executions"
    by (simp add: passed_eq_total_iff)
  from False obtain x where x: "firstFailing executions = Some x"
    using firstFailing_None_iff [of executions] by (cases "firstFailing executions") auto
  from firstFailing_Some_index [OF x] have "x \<noteq> PASS" by blast
  then have "label x \<noteq> ACCEPTED" by (simp add: label_ACCEPTED_iff)
  with assms ne x False show ?thesis by (simp add: VerdictAggregator_def Let_def)
qed

lemma aggregator_first_failure:
  assumes "COMPILE_FAILURE \<notin> set executions" and "\<exists>x \<in> set executions. x \<noteq> PASS"
  shows "\<exists>i < length executions.
           executions ! i \<noteq> PASS \<and> (\<forall>j < i. executions ! j = PASS) \<and>
           ag_verdict (VerdictAggregator executions) = label (executions ! i)"
proof -
  from assms(2) have ne: "length (filter (\<lambda>x. x = PASS) executions) \<noteq> length executions"
    by (auto simp: passed_eq_total_iff)
  from assms(2) obtain x where x: "firstFailing executions = Some x"
    using firstFailing_None_iff [of executions] by (cases "firstFailing executions") auto
  from firstFailing_Some_index [OF x] obtain i where
    i: "i < length executions" "executions ! i = x" "x \<noteq> PASS" "\<forall>j < i. executions ! j = PASS"
    by blast
  from assms(1) ne x have "ag_verdict (VerdictAggregator executions) = label x"
    by (simp add: VerdictAggregator_def Let_def)
  with i show ?thesis by auto
qed

lemma aggregator_example:
  "ag_verdict (VerdictAggregator [PASS, FAIL_WRONG_ANSWER, FAIL_TIME_LIMIT]) = WRONG_ANSWER"
  by (simp add: VerdictAggregator_def)

text \<open>
  Claim C4. For a terminal Execution set with no compile-time failure, the aggregated
  verdict is \<open>ACCEPTED\<close> if and only if every Execution passes; otherwise it is the
  label of the failing Execution before which, in testcase order, every Execution
  passes. For the outcomes PASS, WRONG_ANSWER, TIME_LIMIT_EXCEEDED in that order the
  verdict is \<open>WRONG_ANSWER\<close>.
\<close>

theorem first_failure_wins:
  assumes "COMPILE_FAILURE \<notin> set executions"
  shows "(ag_verdict (VerdictAggregator executions) = ACCEPTED \<longleftrightarrow>
            (\<forall>x \<in> set executions. x = PASS)) \<and>
         ((\<exists>x \<in> set executions. x \<noteq> PASS) \<longrightarrow>
            (\<exists>i < length executions.
               executions ! i \<noteq> PASS \<and> (\<forall>j < i. executions ! j = PASS) \<and>
               ag_verdict (VerdictAggregator executions) = label (executions ! i))) \<and>
         ag_verdict (VerdictAggregator [PASS, FAIL_WRONG_ANSWER, FAIL_TIME_LIMIT]) = WRONG_ANSWER"
  using assms aggregator_accepted_iff aggregator_first_failure aggregator_example by blast

theorem first_failure_wins_witness:
  "COMPILE_FAILURE \<notin> set [PASS, FAIL_WRONG_ANSWER, FAIL_MEMORY_LIMIT] \<and>
   (\<exists>x \<in> set [PASS, FAIL_WRONG_ANSWER, FAIL_MEMORY_LIMIT]. x \<noteq> PASS) \<and>
   ag_verdict (VerdictAggregator [PASS, FAIL_WRONG_ANSWER, FAIL_MEMORY_LIMIT]) \<noteq> ACCEPTED \<and>
   (\<exists>i < length [PASS, FAIL_WRONG_ANSWER, FAIL_MEMORY_LIMIT].
      [PASS, FAIL_WRONG_ANSWER, FAIL_MEMORY_LIMIT] ! i \<noteq> PASS \<and>
      (\<forall>j < i. [PASS, FAIL_WRONG_ANSWER, FAIL_MEMORY_LIMIT] ! j = PASS) \<and>
      ag_verdict (VerdictAggregator [PASS, FAIL_WRONG_ANSWER, FAIL_MEMORY_LIMIT]) =
        label ([PASS, FAIL_WRONG_ANSWER, FAIL_MEMORY_LIMIT] ! i))"
proof -
  have h: "COMPILE_FAILURE \<notin> set [PASS, FAIL_WRONG_ANSWER, FAIL_MEMORY_LIMIT]" by simp
  have f: "\<exists>x \<in> set [PASS, FAIL_WRONG_ANSWER, FAIL_MEMORY_LIMIT]. x \<noteq> PASS" by simp
  from first_failure_wins [OF h] h f show ?thesis by blast
qed

section \<open>The arithmetic of numbers\<close>

text \<open>Powers of two, and the binade of a positive real.\<close>

lemma two_powi_pos [simp]: "0 < (2::rat) powi n"
  by (simp add: power_int_def)

lemma two_powi_less_iff: "(2::rat) powi a < 2 powi b \<longleftrightarrow> a < b"
  using power_int_strict_increasing [of a b "2::rat"] power_int_increasing [of b a "2::rat"]
  by (cases "a < b") (auto simp: not_less)

lemma two_powi_le_iff: "(2::rat) powi a \<le> 2 powi b \<longleftrightarrow> a \<le> b"
  using two_powi_less_iff [of b a] by (auto simp: not_less [symmetric])

lemma two_powi_Suc: "(2::rat) powi (n + 1) = 2 * 2 powi n"
  by (simp add: power_int_add)

lemma less_powi_neg:
  assumes "x * (2::rat) powi j < 1"
  shows "x < 2 powi (- j)"
  using assms by (simp add: power_int_minus_divide pos_less_divide_eq)

lemma le_powi_neg:
  assumes "1 \<le> x * (2::rat) powi j"
  shows "2 powi (- j) \<le> x"
  using assms by (simp add: power_int_minus_divide pos_divide_le_eq)

lemma bracket_unique:
  assumes "(2::rat) powi e \<le> x" and "x < 2 powi (e + 1)"
    and "2 powi e' \<le> x" and "x < 2 powi (e' + 1)"
  shows "e = e'"
proof -
  from assms(1,4) have "(2::rat) powi e < 2 powi (e' + 1)" by simp
  then have "e < e' + 1" by (simp only: two_powi_less_iff)
  moreover from assms(3,2) have "(2::rat) powi e' < 2 powi (e + 1)" by simp
  then have "e' < e + 1" by (simp only: two_powi_less_iff)
  ultimately show ?thesis by simp
qed

lemma expo_bounds:
  assumes "0 < x"
  shows "2 powi expo x \<le> x \<and> x < 2 powi (expo x + 1)"
proof (cases "1 \<le> x")
  case True
  let ?n = "\<lfloor>x\<rfloor>"
  from True have n: "0 < ?n" by simp
  from bitlen_bounds [OF n] have lo: "2 ^ nat (bitlen ?n - 1) \<le> ?n" and hi: "?n < 2 ^ nat (bitlen ?n)"
    by simp_all
  from n have b1: "1 \<le> bitlen ?n" by (simp add: bitlen_alt_def)
  have e: "expo x = bitlen ?n - 1" using True by (simp add: expo_def)
  from lo have "rat_of_int (2 ^ nat (bitlen ?n - 1)) \<le> rat_of_int ?n" by (simp only: of_int_le_iff)
  also have "rat_of_int ?n \<le> x" by simp
  finally have "2 ^ nat (bitlen ?n - 1) \<le> x" by simp
  with b1 have L: "2 powi (bitlen ?n - 1) \<le> x" by (simp add: power_int_nonneg_exp)
  from hi have "?n + 1 \<le> 2 ^ nat (bitlen ?n)" by simp
  then have "rat_of_int (?n + 1) \<le> rat_of_int (2 ^ nat (bitlen ?n))" by (simp only: of_int_le_iff)
  moreover have "x < rat_of_int (?n + 1)" by linarith
  ultimately have "x < 2 ^ nat (bitlen ?n)" by simp
  with b1 have U: "x < 2 powi (bitlen ?n)" by (simp add: power_int_nonneg_exp)
  from L U e show ?thesis by simp
next
  case False
  with assms have x1: "x < 1" by simp
  let ?y = "1 / x"
  let ?n = "\<lceil>?y\<rceil>"
  from assms x1 have y1: "1 < ?y" by simp
  then have n2: "2 \<le> ?n" by (simp add: le_ceiling_iff)
  then have m: "0 < ?n - 1" by simp
  let ?k = "bitlen (?n - 1)"
  from bitlen_bounds [OF m] have lo: "2 ^ nat (?k - 1) \<le> ?n - 1" and hi: "?n - 1 < 2 ^ nat ?k"
    by simp_all
  from m have k1: "1 \<le> ?k" by (simp add: bitlen_alt_def)
  have e: "expo x = - ?k" using False by (simp add: expo_def)
  from hi have "?n \<le> 2 ^ nat ?k" by simp
  then have "rat_of_int ?n \<le> 2 ^ nat ?k" by simp
  moreover have "?y \<le> rat_of_int ?n" by (rule le_of_int_ceiling)
  ultimately have "?y \<le> 2 ^ nat ?k" by (rule order_trans [rotated])
  with k1 have yk: "?y \<le> 2 powi ?k" by (simp add: power_int_nonneg_exp)
  from assms yk have "1 \<le> x * 2 powi ?k" by (simp add: field_simps)
  then have L: "2 powi (- ?k) \<le> x" by (rule le_powi_neg)
  from lo have "rat_of_int (2 ^ nat (?k - 1)) \<le> rat_of_int (?n - 1)" by (simp only: of_int_le_iff)
  moreover have "rat_of_int (?n - 1) < ?y" by linarith
  ultimately have "2 ^ nat (?k - 1) < ?y" by simp
  with k1 have "2 powi (?k - 1) < ?y" by (simp add: power_int_nonneg_exp)
  with assms have "x * 2 powi (?k - 1) < 1" by (simp add: field_simps)
  then have "x < 2 powi (- (?k - 1))" by (rule less_powi_neg)
  moreover have "- (?k - 1) = - ?k + 1" by simp
  ultimately have U: "x < 2 powi (- ?k + 1)" by simp
  from L U e show ?thesis by simp
qed

lemma expo_eq:
  assumes "(2::rat) powi e \<le> x" and "x < 2 powi (e + 1)"
  shows "expo x = e"
proof -
  from assms(1) have "0 < x" using two_powi_pos [of e] by linarith
  from expo_bounds [OF this] assms show ?thesis by (metis bracket_unique)
qed

lemma expo_mono:
  assumes "0 < x" and "x \<le> y"
  shows "expo x \<le> expo y"
proof -
  from assms have "0 < y" by simp
  from expo_bounds [OF assms(1)] expo_bounds [OF this] assms(2)
  have "(2::rat) powi expo x < 2 powi (expo y + 1)" by linarith
  then have "expo x < expo y + 1" by (simp only: two_powi_less_iff)
  then show ?thesis by simp
qed

text \<open>Rounding to the nearest double.\<close>

lemma rne_near: "\<bar>rat_of_int (rne m) - m\<bar> \<le> 1 / 2"
proof -
  have "rat_of_int \<lfloor>m\<rfloor> \<le> m" "m < rat_of_int \<lfloor>m\<rfloor> + 1" by linarith+
  then show ?thesis by (auto simp: rne_def Let_def)
qed

lemma rne_nearest:
  assumes "\<bar>m - rat_of_int k\<bar> < 1 / 2"
  shows "rne m = k"
proof -
  from rne_near [of m] assms have "\<bar>rat_of_int (rne m) - rat_of_int k\<bar> < 1" by linarith
  then have "\<bar>rat_of_int (rne m - k)\<bar> < 1" by simp
  then have "\<bar>rne m - k\<bar> < 1" by (simp only: of_int_abs [symmetric] of_int_less_1_iff)
  then show ?thesis by simp
qed

lemma rne_int [simp]: "rne (rat_of_int k) = k"
  by (rule rne_nearest) simp

lemma rne_mono:
  assumes "m1 \<le> m2"
  shows "rne m1 \<le> rne m2"
proof (cases "\<lfloor>m1\<rfloor> = \<lfloor>m2\<rfloor>")
  case True
  with assms show ?thesis by (auto simp: rne_def Let_def)
next
  case False
  from assms have "\<lfloor>m1\<rfloor> \<le> \<lfloor>m2\<rfloor>" by (rule floor_mono)
  with False have lt: "\<lfloor>m1\<rfloor> + 1 \<le> \<lfloor>m2\<rfloor>" by simp
  have "rne m1 \<le> \<lfloor>m1\<rfloor> + 1" by (simp add: rne_def Let_def)
  moreover have "\<lfloor>m2\<rfloor> \<le> rne m2" by (simp add: rne_def Let_def)
  ultimately show ?thesis using lt by linarith
qed

lemma quantum_pos [simp]: "0 < quantum x"
  by (simp add: quantum_def)

lemma quantum_nonneg [simp]: "0 \<le> quantum x"
  using quantum_pos [of x] by (rule less_imp_le)

lemma quantum_nonzero [simp]: "quantum x \<noteq> 0"
  using quantum_pos [of x] by (rule less_imp_neq [symmetric])

lemma quantum_mono:
  assumes "0 < x" and "x \<le> y"
  shows "quantum x \<le> quantum y"
  using expo_mono [OF assms] by (simp add: quantum_def two_powi_le_iff)

lemma round_pos_nonneg:
  assumes "0 < x"
  shows "0 \<le> round_pos x"
proof -
  from assms have "0 \<le> x / quantum x" by simp
  then have "rne 0 \<le> rne (x / quantum x)" by (rule rne_mono)
  moreover have "rne 0 = 0" using rne_int [of 0] by simp
  ultimately show ?thesis by (simp add: round_pos_def)
qed

lemma round_pos_error:
  "\<bar>round_pos x - x\<bar> \<le> quantum x / 2"
proof -
  let ?q = "quantum x"
  have q: "0 < ?q" by simp
  have "\<bar>rat_of_int (rne (x / ?q)) - x / ?q\<bar> * ?q \<le> 1 / 2 * ?q"
    using rne_near [of "x / ?q"] q by (intro mult_right_mono) simp_all
  moreover have "\<bar>rat_of_int (rne (x / ?q)) - x / ?q\<bar> * ?q = \<bar>round_pos x - x\<bar>"
  proof -
    have "\<bar>rat_of_int (rne (x / ?q)) - x / ?q\<bar> * ?q = \<bar>(rat_of_int (rne (x / ?q)) - x / ?q) * ?q\<bar>"
      using q by (simp add: abs_mult)
    also have "(rat_of_int (rne (x / ?q)) - x / ?q) * ?q = round_pos x - x"
      using q by (simp add: round_pos_def left_diff_distrib)
    finally show ?thesis .
  qed
  ultimately show ?thesis by simp
qed

lemma round_pos_fix:
  assumes "x / quantum x = rat_of_int k"
  shows "round_pos x = x"
proof -
  have "round_pos x = rat_of_int k * quantum x" by (simp add: round_pos_def assms)
  also from assms have "\<dots> = x" using quantum_pos [of x] by (simp add: field_simps)
  finally show ?thesis .
qed

lemma round_pos_upper:
  assumes "0 < x"
  shows "round_pos x \<le> 2 powi (max (expo x) (- 1022) + 1)"
proof -
  let ?E = "max (expo x) (- 1022)"
  let ?q = "quantum x"
  have q: "?q = 2 powi (?E - 52)" by (simp add: quantum_def)
  from expo_bounds [OF assms] have "x < 2 powi (expo x + 1)" ..
  also have "(2::rat) powi (expo x + 1) \<le> 2 powi (?E + 1)" by (simp add: two_powi_le_iff)
  finally have "x < 2 powi (?E + 1)" .
  moreover have "(2::rat) powi (?E + 1) = 2 ^ 53 * ?q"
  proof -
    have "(2::rat) powi (?E + 1) = 2 powi (53 + (?E - 52))"
      by (rule arg_cong [where f = "\<lambda>n. 2 powi n"]) simp
    also have "\<dots> = 2 powi 53 * 2 powi (?E - 52)" by (rule power_int_add) simp
    finally show ?thesis by (simp add: q)
  qed
  ultimately have "x < 2 ^ 53 * ?q" by simp
  then have "x / ?q \<le> rat_of_int (2 ^ 53)" by (simp add: pos_divide_le_eq)
  then have "rne (x / ?q) \<le> rne (rat_of_int (2 ^ 53))" by (rule rne_mono)
  then have "rne (x / ?q) \<le> 2 ^ 53" by (simp only: rne_int)
  then have "rat_of_int (rne (x / ?q)) \<le> 2 ^ 53" by simp
  then have "rat_of_int (rne (x / ?q)) * ?q \<le> 2 ^ 53 * ?q" by (intro mult_right_mono) simp_all
  with \<open>(2::rat) powi (?E + 1) = 2 ^ 53 * ?q\<close> show ?thesis by (simp add: round_pos_def)
qed

lemma round_pos_lower:
  assumes "0 < x" and "- 1022 \<le> expo x"
  shows "2 powi expo x \<le> round_pos x"
proof -
  let ?q = "quantum x"
  from assms(2) have q: "?q = 2 powi (expo x - 52)" by (simp add: quantum_def max_def)
  have p: "(2::rat) powi expo x = 2 ^ 52 * ?q"
  proof -
    have "(2::rat) powi expo x = 2 powi (52 + (expo x - 52))"
      by (rule arg_cong [where f = "\<lambda>n. 2 powi n"]) simp
    also have "\<dots> = 2 powi 52 * 2 powi (expo x - 52)" by (rule power_int_add) simp
    finally show ?thesis by (simp add: q)
  qed
  from expo_bounds [OF assms(1)] have "2 powi expo x \<le> x" ..
  with p have "2 ^ 52 * ?q \<le> x" by simp
  then have "rat_of_int (2 ^ 52) \<le> x / ?q" by (simp add: pos_le_divide_eq)
  then have "rne (rat_of_int (2 ^ 52)) \<le> rne (x / ?q)" by (rule rne_mono)
  then have "2 ^ 52 \<le> rne (x / ?q)" by (simp only: rne_int)
  then have "2 ^ 52 \<le> rat_of_int (rne (x / ?q))" by simp
  then have "2 ^ 52 * ?q \<le> rat_of_int (rne (x / ?q)) * ?q" by (intro mult_right_mono) simp_all
  with p show ?thesis by (simp add: round_pos_def)
qed

lemma round_pos_mono:
  assumes "0 < x" and "x \<le> y"
  shows "round_pos x \<le> round_pos y"
proof (cases "max (expo x) (- 1022) = max (expo y) (- 1022)")
  case True
  then have q: "quantum x = quantum y" by (simp add: quantum_def)
  from assms(2) have "x / quantum y \<le> y / quantum y" by (simp add: divide_right_mono)
  then have "rne (x / quantum y) \<le> rne (y / quantum y)" by (rule rne_mono)
  then have "rat_of_int (rne (x / quantum y)) * quantum y \<le> rat_of_int (rne (y / quantum y)) * quantum y"
    by (intro mult_right_mono) simp_all
  with q show ?thesis by (simp add: round_pos_def)
next
  case False
  from assms have y: "0 < y" by simp
  from expo_mono [OF assms] False have lt: "max (expo x) (- 1022) + 1 \<le> expo y" and n: "- 1022 \<le> expo y"
    by (auto simp: max_def split: if_splits)
  have "round_pos x \<le> 2 powi (max (expo x) (- 1022) + 1)" by (rule round_pos_upper [OF assms(1)])
  also from lt have "(2::rat) powi (max (expo x) (- 1022) + 1) \<le> 2 powi expo y"
    by (simp only: two_powi_le_iff)
  also have "\<dots> \<le> round_pos y" by (rule round_pos_lower [OF y n])
  finally show ?thesis .
qed

lemma round_pos_exact:
  assumes "(2::rat) powi e \<le> x" and "x < 2 powi (e + 1)" and "- 1022 \<le> e"
    and "x / 2 powi (e - 52) = rat_of_int k"
  shows "round_pos x = x" and "quantum x = 2 powi (e - 52)"
proof -
  from assms(1,2) have "expo x = e" by (rule expo_eq)
  with assms(3) show q: "quantum x = 2 powi (e - 52)" by (simp add: quantum_def max_def)
  with assms(4) show "round_pos x = x" by (simp add: round_pos_fix)
qed

lemma round_pos_1: "round_pos 1 = 1" and quantum_1: "quantum 1 = 1 / 2 ^ 52"
proof -
  have a: "(2::rat) powi 0 \<le> 1" "(1::rat) < 2 powi (0 + 1)" "- 1022 \<le> (0::int)"
    "(1::rat) / 2 powi (0 - 52) = rat_of_int (2 ^ 52)"
    by (simp_all add: power_int_minus_divide)
  from round_pos_exact [OF a] show "round_pos 1 = 1" "quantum 1 = 1 / 2 ^ 52"
    by (simp_all add: power_int_minus_divide)
qed

lemma round_pos_100: "round_pos 100 = 100" and quantum_100: "quantum 100 = 1 / 2 ^ 46"
proof -
  have a: "(2::rat) powi 6 \<le> 100" "(100::rat) < 2 powi (6 + 1)" "- 1022 \<le> (6::int)"
    "(100::rat) / 2 powi (6 - 52) = rat_of_int (100 * 2 ^ 46)"
    by (simp_all add: power_int_minus_divide)
  from round_pos_exact [OF a] show "round_pos 100 = 100" "quantum 100 = 1 / 2 ^ 46"
    by (simp_all add: power_int_minus_divide)
qed

lemma round_pos_10000: "round_pos 10000 = 10000" and quantum_10000: "quantum 10000 = 1 / 2 ^ 39"
proof -
  have a: "(2::rat) powi 13 \<le> 10000" "(10000::rat) < 2 powi (13 + 1)" "- 1022 \<le> (13::int)"
    "(10000::rat) / 2 powi (13 - 52) = rat_of_int (10000 * 2 ^ 39)"
    by (simp_all add: power_int_minus_divide)
  from round_pos_exact [OF a] show "round_pos 10000 = 10000" "quantum 10000 = 1 / 2 ^ 39"
    by (simp_all add: power_int_minus_divide)
qed

lemma double_of_fixed:
  assumes "0 < c" and "round_pos c = c" and "c < 2 ^ 1024"
  shows "double_of c = Finite c" and "double_of (- c) = Finite (- c)"
  using assms by (simp_all add: double_of_def Let_def)

lemma double_of_bounded:
  assumes "0 \<le> x" and "x \<le> c" and "round_pos c = c" and "c < 2 ^ 1024"
  shows "\<exists>r. double_of x = Finite r \<and> 0 \<le> r \<and> r \<le> c \<and> \<bar>r - x\<bar> \<le> quantum c / 2"
proof (cases "x = 0")
  case True
  with assms(1,2) show ?thesis by (simp add: double_of_def)
next
  case False
  with assms(1) have x: "0 < x" by simp
  from round_pos_mono [OF x assms(2)] assms(3) have le: "round_pos x \<le> c" by simp
  with assms(4) have "\<not> 2 ^ 1024 \<le> round_pos x" by linarith
  with x have d: "double_of x = Finite (round_pos x)" by (simp add: double_of_def Let_def)
  have "\<bar>round_pos x - x\<bar> \<le> quantum x / 2" by (rule round_pos_error)
  moreover from quantum_mono [OF x assms(2)] have "quantum x / 2 \<le> quantum c / 2" by simp
  ultimately have "\<bar>round_pos x - x\<bar> \<le> quantum c / 2" by linarith
  with d le round_pos_nonneg [OF x] show ?thesis by simp
qed


lemma round_pos_eval:
  assumes "(2::rat) powi e \<le> x" and "x < 2 powi (e + 1)" and "- 1022 \<le> e"
    and "\<bar>x / 2 powi (e - 52) - rat_of_int k\<bar> < 1 / 2"
  shows "round_pos x = rat_of_int k * 2 powi (e - 52)"
proof -
  from assms(1,2) have "expo x = e" by (rule expo_eq)
  with assms(3) have q: "quantum x = 2 powi (e - 52)" by (simp add: quantum_def max_def)
  from assms(4) have "rne (x / 2 powi (e - 52)) = k" by (rule rne_nearest)
  with q show ?thesis by (simp add: round_pos_def)
qed

lemma double_of_eval:
  assumes "(2::rat) powi e \<le> x" and "x < 2 powi (e + 1)" and "- 1022 \<le> e"
    and "\<bar>x / 2 powi (e - 52) - rat_of_int k\<bar> < 1 / 2"
    and "rat_of_int k * 2 powi (e - 52) < 2 ^ 1024"
  shows "double_of x = Finite (rat_of_int k * 2 powi (e - 52))"
proof -
  from assms(1) have x: "0 < x" using two_powi_pos [of e] by linarith
  from round_pos_eval [OF assms(1-4)] assms(5) x show ?thesis
    by (simp add: double_of_def Let_def)
qed

lemma js_div_nonneg:
  assumes "0 \<le> a" and "0 < t"
  shows "js_div (Finite a) (Finite t) = double_of (a / t)"
  using assms by (simp add: js_div_def zero_def double_of_def)

lemma js_mul_nonneg:
  assumes "0 \<le> a" and "0 \<le> b"
  shows "js_mul (Finite a) (Finite b) = double_of (a * b)"
  using assms by (auto simp: js_mul_def zero_def double_of_def)

lemma js_div_nonzero:
  assumes "a \<noteq> 0" and "t \<noteq> 0"
  shows "js_div (Finite a) (Finite t) = double_of (a / t)"
  using assms by (simp add: js_div_def)

lemma js_mul_nonzero:
  assumes "a \<noteq> 0" and "b \<noteq> 0"
  shows "js_mul (Finite a) (Finite b) = double_of (a * b)"
  using assms by (simp add: js_mul_def)

lemma Math_round_int: "Math_round (Finite (rat_of_int k)) = Finite (rat_of_int k)"
proof -
  have "\<lfloor>rat_of_int k + 1 / 2\<rfloor> = k" by (rule floor_unique) simp_all
  moreover have "\<not> (rat_of_int k < 0 \<and> - (1 / 2) \<le> rat_of_int k)"
  proof
    assume "rat_of_int k < 0 \<and> - (1 / 2) \<le> rat_of_int k"
    then have "rat_of_int k < rat_of_int 0" and "rat_of_int (- 1) < rat_of_int k" by simp_all
    then have "k < 0" and "- 1 < k" by (simp_all only: of_int_less_iff)
    then show False by simp
  qed
  ultimately show ?thesis by simp
qed

lemma Math_round_bounded:
  assumes "0 \<le> x" and "x \<le> 10000"
  shows "\<exists>k. Math_round (Finite x) = Finite (rat_of_int k) \<and> 0 \<le> k \<and> k \<le> 10000 \<and>
             \<bar>rat_of_int k - x\<bar> \<le> 1 / 2"
proof -
  let ?k = "\<lfloor>x + 1 / 2\<rfloor>"
  have lo: "rat_of_int ?k \<le> x + 1 / 2" and hi: "x + 1 / 2 < rat_of_int ?k + 1" by linarith+
  from assms(1) have "0 \<le> x + 1 / 2" by simp
  then have k0: "0 \<le> ?k" by (simp only: zero_le_floor)
  from assms(2) have "x + 1 / 2 < rat_of_int 10000 + 1" by simp
  then have k1: "?k \<le> 10000" by (simp only: floor_le_iff)
  from lo hi have "\<bar>rat_of_int ?k - x\<bar> \<le> 1 / 2" by linarith
  with k0 k1 assms(1) show ?thesis by simp
qed

lemma rate_props:
  assumes "0 \<le> a" and "a \<le> t" and "0 < t"
  shows "\<exists>r k. js_div (Math_round (js_mul (js_mul (js_div (Finite a) (Finite t)) (Finite 100)) (Finite 100)))
                  (Finite 100) = Finite r \<and>
               Finite r = js_div (Finite (rat_of_int k)) (Finite 100) \<and>
               0 \<le> k \<and> k \<le> 10000 \<and> 0 \<le> r \<and> r \<le> 100 \<and>
               \<bar>rat_of_int k / 100 - a / t * 100\<bar> \<le> 1 / 200 + 1 / 2 ^ 45 \<and>
               \<bar>r - a / t * 100\<bar> \<le> 1 / 200 + 1 / 2 ^ 44"
proof -
  have big: "(1::rat) < 2 ^ 1024" "(100::rat) < 2 ^ 1024" "(10000::rat) < 2 ^ 1024" by simp_all
  from assms have x0: "0 \<le> a / t" "a / t \<le> 1" by simp_all
  from double_of_bounded [OF x0 round_pos_1 big(1)] obtain r1 where
    r1: "double_of (a / t) = Finite r1" "0 \<le> r1" "r1 \<le> 1" "\<bar>r1 - a / t\<bar> \<le> quantum 1 / 2"
    by blast
  from r1(2,3) have x1: "0 \<le> r1 * 100" "r1 * 100 \<le> 100" by simp_all
  from double_of_bounded [OF x1 round_pos_100 big(2)] obtain r2 where
    r2: "double_of (r1 * 100) = Finite r2" "0 \<le> r2" "r2 \<le> 100" "\<bar>r2 - r1 * 100\<bar> \<le> quantum 100 / 2"
    by blast
  from r2(2,3) have x2: "0 \<le> r2 * 100" "r2 * 100 \<le> 10000" by simp_all
  from double_of_bounded [OF x2 round_pos_10000 big(3)] obtain r3 where
    r3: "double_of (r2 * 100) = Finite r3" "0 \<le> r3" "r3 \<le> 10000"
        "\<bar>r3 - r2 * 100\<bar> \<le> quantum 10000 / 2"
    by blast
  from Math_round_bounded [OF r3(2,3)] obtain k where
    k: "Math_round (Finite r3) = Finite (rat_of_int k)" "0 \<le> k" "k \<le> 10000"
       "\<bar>rat_of_int k - r3\<bar> \<le> 1 / 2"
    by blast
  from k(2,3) have x4: "0 \<le> rat_of_int k / 100" "rat_of_int k / 100 \<le> 100" by simp_all
  from double_of_bounded [OF x4 round_pos_100 big(2)] obtain r4 where
    r4: "double_of (rat_of_int k / 100) = Finite r4" "0 \<le> r4" "r4 \<le> 100"
        "\<bar>r4 - rat_of_int k / 100\<bar> \<le> quantum 100 / 2"
    by blast
  have e1: "js_div (Finite a) (Finite t) = Finite r1"
    using js_div_nonneg [OF assms(1,3)] r1(1) by simp
  have e2: "js_mul (Finite r1) (Finite 100) = Finite r2"
    using js_mul_nonneg [OF r1(2), of 100] r2(1) by simp
  have e3: "js_mul (Finite r2) (Finite 100) = Finite r3"
    using js_mul_nonneg [OF r2(2), of 100] r3(1) by simp
  have e5: "js_div (Finite (rat_of_int k)) (Finite 100) = Finite r4"
    using js_div_nonneg [of "rat_of_int k" 100] k(2) r4(1) by simp
  have chain: "js_div (Math_round (js_mul (js_mul (js_div (Finite a) (Finite t)) (Finite 100)) (Finite 100)))
                  (Finite 100) = Finite r4"
    by (simp only: e1 e2 e3 k(1) e5)
  define x where "x = a / t"
  define kk where "kk = rat_of_int k"
  have b1: "\<bar>r1 - x\<bar> \<le> 1 / 9007199254740992" using r1(4) by (simp add: quantum_1 x_def)
  have b2: "\<bar>r2 - r1 * 100\<bar> \<le> 1 / 140737488355328" using r2(4) by (simp add: quantum_100)
  have b3: "\<bar>r3 - r2 * 100\<bar> \<le> 1 / 1099511627776" using r3(4) by (simp add: quantum_10000)
  have b4: "\<bar>kk - r3\<bar> \<le> 1 / 2" using k(4) by (simp add: kk_def)
  have b5: "\<bar>r4 - kk / 100\<bar> \<le> 1 / 140737488355328" using r4(4) by (simp add: quantum_100 kk_def)
  have c1: "- (1 / 9007199254740992) \<le> r1 - x" "r1 - x \<le> 1 / 9007199254740992"
    using b1 by linarith+
  have c2: "- (1 / 140737488355328) \<le> r2 - r1 * 100" "r2 - r1 * 100 \<le> 1 / 140737488355328"
    using b2 by linarith+
  have c3: "- (1 / 1099511627776) \<le> r3 - r2 * 100" "r3 - r2 * 100 \<le> 1 / 1099511627776"
    using b3 by linarith+
  have c4: "- (1 / 2) \<le> kk - r3" "kk - r3 \<le> 1 / 2"
    using b4 by linarith+
  have c5: "- (1 / 140737488355328) \<le> r4 - kk / 100" "r4 - kk / 100 \<le> 1 / 140737488355328"
    using b5 by linarith+
  have "kk / 100 - x * 100 \<le> 1 / 200 + 1 / 35184372088832"
    using c1(2) c2(2) c3(2) c4(2) by linarith
  moreover have "- (1 / 200 + 1 / 35184372088832) \<le> kk / 100 - x * 100"
    using c1(1) c2(1) c3(1) c4(1) by linarith
  ultimately have "\<bar>kk / 100 - x * 100\<bar> \<le> 1 / 200 + 1 / 35184372088832" by linarith
  then have fink: "\<bar>rat_of_int k / 100 - a / t * 100\<bar> \<le> 1 / 200 + 1 / 2 ^ 45"
    by (simp add: x_def kk_def)
  have "r4 - x * 100 \<le> 1 / 200 + 1 / 17592186044416"
    using c1(2) c2(2) c3(2) c4(2) c5(2) by linarith
  moreover have "- (1 / 200 + 1 / 17592186044416) \<le> r4 - x * 100"
    using c1(1) c2(1) c3(1) c4(1) c5(1) by linarith
  ultimately have "\<bar>r4 - x * 100\<bar> \<le> 1 / 200 + 1 / 17592186044416" by linarith
  then have fin: "\<bar>r4 - a / t * 100\<bar> \<le> 1 / 200 + 1 / 2 ^ 44" by (simp add: x_def)
  show ?thesis
    apply (rule exI [where x = r4])
    apply (rule exI [where x = k])
    apply (intro conjI)
           apply (rule chain)
          apply (rule e5 [symmetric])
         apply (rule k(2))
        apply (rule k(3))
       apply (rule r4(2))
      apply (rule r4(3))
     apply (rule fink)
    apply (rule fin)
    done
qed

section \<open>The acceptance rate of a problem\<close>

text \<open>What \<open>getProblemStats\<close> returns for the statistics record that it reads.\<close>

lemma getProblemStats_reads:
  assumes "first (filter (\<lambda>p. p_problemId p = problemId) (problems db)) = Some problem"
    and "first (filter (\<lambda>s. ps_problemId s = p_id problem) (problemStats db)) = Some stats"
  shows "getProblemStats db problemId =
           Inr (Inr \<lparr>sv_totalSubmissions = ps_totalSubmissions stats,
                     sv_acceptedSubmissions = ps_acceptedSubmissions stats,
                     sv_acceptanceRate =
                       js_div (Math_round (js_mul
                         (if js_gt (ps_totalSubmissions stats) (Finite 0)
                          then js_mul (js_div (ps_acceptedSubmissions stats)
                                              (ps_totalSubmissions stats)) (Finite 100)
                          else Finite 0) (Finite 100))) (Finite 100),
                     sv_difficulty = p_difficulty problem\<rparr>)"
  using assms by (simp add: getProblemStats_def Let_def)

text \<open>On finite numbers the comparisons are those of the reals that the numbers denote.\<close>

lemma js_le_numeric:
  assumes "numeric x = Some a" and "numeric y = Some b"
  shows "js_le x y = (a \<le> b)"
  using assms by (cases x; cases y) (auto simp: js_le_def)

lemma js_gt_numeric:
  assumes "numeric x = Some a" and "numeric y = Some b"
  shows "js_gt x y = (b < a)"
  using assms by (cases x; cases y) (auto simp: js_gt_def)

lemma numeric_nonzero:
  assumes "numeric x = Some a" and "a \<noteq> 0"
  shows "x = Finite a"
  using assms by (cases x) simp_all

lemma numeric_zero:
  assumes "numeric x = Some 0"
  shows "x = Finite 0 \<or> x = NegZero"
  using assms by (cases x) simp_all

text \<open>Without a submission the rate is 0, and the quotient of the counters is NaN.\<close>

lemma rate_of_zero:
  "js_div (Math_round (js_mul (Finite 0) (Finite 100))) (Finite 100) = Finite 0"
proof -
  have "js_mul (Finite 0) (Finite 100) = Finite 0" by (simp add: js_mul_def zero_def)
  moreover have "Math_round (Finite 0) = Finite 0" using Math_round_int [of 0] by simp
  moreover have "js_div (Finite 0) (Finite 100) = Finite 0" by (simp add: js_div_def zero_def)
  ultimately show ?thesis by simp
qed

lemma zero_by_zero:
  assumes "numeric x = Some 0" and "numeric y = Some 0"
  shows "js_div x y = NaN"
  using numeric_zero [OF assms(1)] numeric_zero [OF assms(2)] by (auto simp: js_div_def)

text \<open>The rate of the negative zero out of a positive total is the negative zero.\<close>

lemma rate_of_NegZero:
  assumes "0 < t"
  shows "js_div (Math_round (js_mul (js_mul (js_div NegZero (Finite t)) (Finite 100)) (Finite 100)))
           (Finite 100) = NegZero"
proof -
  from assms have "js_div NegZero (Finite t) = NegZero" by (simp add: js_div_def zero_def)
  moreover have "js_mul NegZero (Finite 100) = NegZero" by (simp add: js_mul_def zero_def)
  moreover have "js_div NegZero (Finite 100) = NegZero" by (simp add: js_div_def zero_def)
  ultimately show ?thesis by simp
qed

lemma acceptanceRate_finite:
  assumes acc: "numeric acc = Some a" and tot: "numeric tot = Some t"
    and a: "0 \<le> a" and le: "a \<le> t"
  shows "\<exists>r. numeric (js_div (Math_round (js_mul
                  (if js_gt tot (Finite 0) then js_mul (js_div acc tot) (Finite 100) else Finite 0)
                  (Finite 100))) (Finite 100)) = Some r \<and>
             0 \<le> r \<and> r \<le> 100 \<and>
             (t = 0 \<longrightarrow> r = 0 \<and> js_div acc tot = NaN) \<and>
             (t \<noteq> 0 \<longrightarrow>
                (\<exists>k. 0 \<le> k \<and> k \<le> 10000 \<and>
                      Some r = numeric (js_div (Finite (rat_of_int k)) (Finite 100)) \<and>
                      \<bar>rat_of_int k / 100 - a / t * 100\<bar> \<le> 1 / 200 + 1 / 2 ^ 45) \<and>
                \<bar>r - a / t * 100\<bar> \<le> 1 / 200 + 1 / 2 ^ 44)"
proof (cases "t = 0")
  case True
  with a le have a0: "a = 0" by simp
  from tot True have gt: "\<not> js_gt tot (Finite 0)" by (simp add: js_gt_numeric [of tot t "Finite 0" 0])
  from acc tot a0 True have "js_div acc tot = NaN" by (simp add: zero_by_zero)
  with gt True show ?thesis by (simp add: rate_of_zero)
next
  case False
  with a le have t: "0 < t" by simp
  from numeric_nonzero [OF tot False] have T: "tot = Finite t" .
  from t T have gt: "js_gt tot (Finite 0)" by (simp add: js_gt_def)
  show ?thesis
  proof (cases "acc = NegZero")
    case True
    with acc have a0: "a = 0" by simp
    have k: "numeric (js_div (Finite (rat_of_int 0)) (Finite 100)) = Some 0"
      by (simp add: js_div_def zero_def)
    have "\<exists>k. 0 \<le> k \<and> k \<le> 10000 \<and>
              Some 0 = numeric (js_div (Finite (rat_of_int k)) (Finite 100)) \<and>
              \<bar>rat_of_int k / 100 - a / t * 100\<bar> \<le> 1 / 200 + 1 / 2 ^ 45"
      apply (rule exI [where x = 0])
      using k a0 by simp
    with True T False gt a0 rate_of_NegZero [OF t] show ?thesis by simp
  next
    case nz: False
    with acc have A: "acc = Finite a" by (cases acc) simp_all
    from rate_props [OF a le t] obtain r k where
      rk: "js_div (Math_round (js_mul (js_mul (js_div (Finite a) (Finite t)) (Finite 100)) (Finite 100)))
             (Finite 100) = Finite r"
          "Finite r = js_div (Finite (rat_of_int k)) (Finite 100)"
          "0 \<le> k" "k \<le> 10000" "0 \<le> r" "r \<le> 100"
          "\<bar>rat_of_int k / 100 - a / t * 100\<bar> \<le> 1 / 200 + 1 / 2 ^ 45"
          "\<bar>r - a / t * 100\<bar> \<le> 1 / 200 + 1 / 2 ^ 44"
      by blast
    from rk(2) have "Some r = numeric (js_div (Finite (rat_of_int k)) (Finite 100))"
      by (simp add: rk(2) [symmetric])
    with rk(3,4,7) have
      "\<exists>k. 0 \<le> k \<and> k \<le> 10000 \<and>
           Some r = numeric (js_div (Finite (rat_of_int k)) (Finite 100)) \<and>
           \<bar>rat_of_int k / 100 - a / t * 100\<bar> \<le> 1 / 200 + 1 / 2 ^ 45"
      by blast
    with A T False gt rk(1,5,6,8) show ?thesis by simp
  qed
qed

text \<open>The rate of one accepted submission out of three, step by step.\<close>

lemma third_quotient: "double_of (1 / 3) = Finite (6004799503160661 / 18014398509481984)"
  using double_of_eval [of "- 2" "1 / 3" 6004799503160661] by (simp add: power_int_minus_divide)

lemma third_percent: "double_of (150119987579016525 / 4503599627370496) = Finite (2345624805922133 / 70368744177664)"
  using double_of_eval [of "5" "150119987579016525 / 4503599627370496" 4691249611844266] by (simp add: power_int_minus_divide)

lemma third_scaled: "double_of (58640620148053325 / 17592186044416) = Finite (3665038759253333 / 1099511627776)"
  using double_of_eval [of "11" "58640620148053325 / 17592186044416" 7330077518506666] by (simp add: power_int_minus_divide)

lemma third_hundredths: "double_of (3333 / 100) = Finite (2345390243441541 / 70368744177664)"
  using double_of_eval [of "5" "3333 / 100" 4690780486883082] by (simp add: power_int_minus_divide)

lemma third_rounded: "Math_round (Finite (3665038759253333 / 1099511627776)) = Finite 3333"
proof -
  have "\<lfloor>(3665038759253333 / 1099511627776 :: rat) + 1 / 2\<rfloor> = 3333"
    by (rule floor_unique) simp_all
  then show ?thesis by simp
qed

lemma third_rate:
  "js_div (Math_round (js_mul (js_mul (js_div (Finite 1) (Finite 3)) (Finite 100)) (Finite 100)))
     (Finite 100) = Finite (2345390243441541 / 70368744177664)"
proof -
  have e1: "js_div (Finite 1) (Finite 3) = Finite (6004799503160661 / 18014398509481984)"
    using js_div_nonzero [of 1 3] third_quotient by simp
  have e2: "js_mul (Finite (6004799503160661 / 18014398509481984)) (Finite 100) =
              Finite (2345624805922133 / 70368744177664)"
    using js_mul_nonzero [of "6004799503160661 / 18014398509481984" 100] third_percent by simp
  have e3: "js_mul (Finite (2345624805922133 / 70368744177664)) (Finite 100) =
              Finite (3665038759253333 / 1099511627776)"
    using js_mul_nonzero [of "2345624805922133 / 70368744177664" 100] third_scaled by simp
  have e5: "js_div (Finite 3333) (Finite 100) = Finite (2345390243441541 / 70368744177664)"
    using js_div_nonzero [of 3333 100] third_hundredths by simp
  show ?thesis by (simp only: e1 e2 e3 third_rounded e5)
qed

lemma tie_quotient: "double_of (23 / 160) = Finite (2589569785738035 / 18014398509481984)"
  using double_of_eval [of "- 3" "23 / 160" 5179139571476070] by (simp add: power_int_minus_divide)

lemma tie_percent: "double_of (64739244643450875 / 4503599627370496) = Finite (8092405580431359 / 562949953421312)"
  using double_of_eval [of "3" "64739244643450875 / 4503599627370496" 8092405580431359] by (simp add: power_int_minus_divide)

lemma tie_scaled: "double_of (202310139510783975 / 140737488355328) = Finite (6322191859711999 / 4398046511104)"
  using double_of_eval [of "10" "202310139510783975 / 140737488355328" 6322191859711999] by (simp add: power_int_minus_divide)

lemma tie_hundredths: "double_of (1437 / 100) = Finite (8089590830664253 / 562949953421312)"
  using double_of_eval [of "3" "1437 / 100" 8089590830664253] by (simp add: power_int_minus_divide)

lemma tie_rounded: "Math_round (Finite (6322191859711999 / 4398046511104)) = Finite 1437"
proof -
  have "\<lfloor>(6322191859711999 / 4398046511104 :: rat) + 1 / 2\<rfloor> = 1437"
    by (rule floor_unique) simp_all
  then show ?thesis by simp
qed

lemma tie_rate:
  "js_div (Math_round (js_mul (js_mul (js_div (Finite 23) (Finite 160)) (Finite 100)) (Finite 100)))
     (Finite 100) = Finite (8089590830664253 / 562949953421312)"
proof -
  have e1: "js_div (Finite 23) (Finite 160) = Finite (2589569785738035 / 18014398509481984)"
    using js_div_nonzero [of 23 160] tie_quotient by simp
  have e2: "js_mul (Finite (2589569785738035 / 18014398509481984)) (Finite 100) =
              Finite (8092405580431359 / 562949953421312)"
    using js_mul_nonzero [of "2589569785738035 / 18014398509481984" 100] tie_percent by simp
  have e3: "js_mul (Finite (8092405580431359 / 562949953421312)) (Finite 100) =
              Finite (6322191859711999 / 4398046511104)"
    using js_mul_nonzero [of "8092405580431359 / 562949953421312" 100] tie_scaled by simp
  have e5: "js_div (Finite 1437) (Finite 100) = Finite (8089590830664253 / 562949953421312)"
    using js_div_nonzero [of 1437 100] tie_hundredths by simp
  show ?thesis by (simp only: e1 e2 e3 tie_rounded e5)
qed

lemma tie_upper: "double_of (719 / 50) = Finite (8095220330198467 / 562949953421312)"
  using double_of_eval [of "3" "719 / 50" 8095220330198467] by (simp add: power_int_minus_divide)

lemma getProblemStats_store1:
  "getProblemStats store1 ''PROB_1'' =
     Inr (Inr \<lparr>sv_totalSubmissions = Finite 3, sv_acceptedSubmissions = Finite 1,
               sv_acceptanceRate = Finite (2345390243441541 / 70368744177664),
               sv_difficulty = Some EASY\<rparr>)"
proof -
  have p: "first (filter (\<lambda>p. p_problemId p = ''PROB_1'') (problems store1)) = Some problem1"
    by (simp add: first_def store1_def problem1_def)
  have s: "first (filter (\<lambda>s. ps_problemId s = p_id problem1) (problemStats store1)) = Some stats1"
    by (simp add: first_def store1_def problem1_def stats1_def)
  have g: "js_gt (Finite 3) (Finite 0)" by (simp add: js_gt_def)
  from getProblemStats_reads [OF p s] g third_rate show ?thesis
    by (simp add: stats1_def problem1_def)
qed

text \<open>The rate of \<open>- 1\<close> accepted submissions out of one.\<close>

lemma negative_rate:
  "js_div (Math_round (js_mul (js_mul (js_div (Finite (- 1)) (Finite 1)) (Finite 100)) (Finite 100)))
     (Finite 100) = Finite (- 100)"
proof -
  have big: "(1::rat) < 2 ^ 1024" "(100::rat) < 2 ^ 1024" "(10000::rat) < 2 ^ 1024" by simp_all
  have d1: "double_of (- 1) = Finite (- 1)" using double_of_fixed(2) [OF _ round_pos_1 big(1)] by simp
  have d2: "double_of (- 100) = Finite (- 100)"
    using double_of_fixed(2) [OF _ round_pos_100 big(2)] by simp
  have d3: "double_of (- 10000) = Finite (- 10000)"
    using double_of_fixed(2) [OF _ round_pos_10000 big(3)] by simp
  have e1: "js_div (Finite (- 1)) (Finite 1) = Finite (- 1)"
    using js_div_nonzero [of "- 1" 1] d1 by simp
  have e2: "js_mul (Finite (- 1)) (Finite 100) = Finite (- 100)"
    using js_mul_nonzero [of "- 1" 100] d2 by simp
  have e3: "js_mul (Finite (- 100)) (Finite 100) = Finite (- 10000)"
    using js_mul_nonzero [of "- 100" 100] d3 by simp
  have e4: "Math_round (Finite (- 10000)) = Finite (- 10000)"
    using Math_round_int [of "- 10000"] by simp
  have e5: "js_div (Finite (- 10000)) (Finite 100) = Finite (- 100)"
    using js_div_nonzero [of "- 10000" 100] d2 by simp
  show ?thesis by (simp only: e1 e2 e3 e4 e5)
qed

text \<open>
  Claim C8, for finite counters that are not negative. Let \<open>getProblemStats\<close> read a
  statistics record whose two counters are finite numbers with
  \<open>0 \<le> acceptedSubmissions \<le> totalSubmissions\<close>. Then it returns the two counters
  and a finite \<open>acceptanceRate\<close> between 0 and 100. When \<open>totalSubmissions\<close> is 0 the
  rate is 0, and the quotient of the counters, which would be NaN, is not taken.
  Otherwise the rate is the double that \<open>k / 100\<close> gives for a whole number \<open>k\<close> of
  hundredths between 0 and 10000, where \<open>k / 100\<close> lies within \<open>0.005 + 2 ^ -45\<close> of
  \<open>(acceptedSubmissions / totalSubmissions) * 100\<close>, and the rate itself lies within
  \<open>0.005 + 2 ^ -44\<close> of that percentage.
\<close>

theorem getProblemStats_acceptanceRate:
  assumes "first (filter (\<lambda>p. p_problemId p = problemId) (problems db)) = Some problem"
    and "first (filter (\<lambda>s. ps_problemId s = p_id problem) (problemStats db)) = Some stats"
    and "numeric (ps_acceptedSubmissions stats) = Some a"
    and "numeric (ps_totalSubmissions stats) = Some t"
    and "0 \<le> a" and "a \<le> t"
  shows "\<exists>rate r.
           getProblemStats db problemId =
             Inr (Inr \<lparr>sv_totalSubmissions = ps_totalSubmissions stats,
                       sv_acceptedSubmissions = ps_acceptedSubmissions stats,
                       sv_acceptanceRate = rate,
                       sv_difficulty = p_difficulty problem\<rparr>) \<and>
           numeric rate = Some r \<and> 0 \<le> r \<and> r \<le> 100 \<and>
           (t = 0 \<longrightarrow>
              r = 0 \<and> js_div (ps_acceptedSubmissions stats) (ps_totalSubmissions stats) = NaN) \<and>
           (t \<noteq> 0 \<longrightarrow>
              (\<exists>k. 0 \<le> k \<and> k \<le> 10000 \<and>
                    Some r = numeric (js_div (Finite (rat_of_int k)) (Finite 100)) \<and>
                    \<bar>rat_of_int k / 100 - a / t * 100\<bar> \<le> 1 / 200 + 1 / 2 ^ 45) \<and>
              \<bar>r - a / t * 100\<bar> \<le> 1 / 200 + 1 / 2 ^ 44)"
proof -
  from acceptanceRate_finite [OF assms(3-6)] obtain r where
    r: "numeric (js_div (Math_round (js_mul
                  (if js_gt (ps_totalSubmissions stats) (Finite 0)
                   then js_mul (js_div (ps_acceptedSubmissions stats)
                                       (ps_totalSubmissions stats)) (Finite 100)
                   else Finite 0)
                  (Finite 100))) (Finite 100)) = Some r \<and>
        0 \<le> r \<and> r \<le> 100 \<and>
        (t = 0 \<longrightarrow>
           r = 0 \<and> js_div (ps_acceptedSubmissions stats) (ps_totalSubmissions stats) = NaN) \<and>
        (t \<noteq> 0 \<longrightarrow>
           (\<exists>k. 0 \<le> k \<and> k \<le> 10000 \<and>
                 Some r = numeric (js_div (Finite (rat_of_int k)) (Finite 100)) \<and>
                 \<bar>rat_of_int k / 100 - a / t * 100\<bar> \<le> 1 / 200 + 1 / 2 ^ 45) \<and>
           \<bar>r - a / t * 100\<bar> \<le> 1 / 200 + 1 / 2 ^ 44)"
    by (rule exE)
  show ?thesis
    apply (rule exI)
    apply (rule exI [where x = r])
    apply (rule conjI)
     apply (rule getProblemStats_reads [OF assms(1,2)])
    apply (rule r)
    done
qed

theorem getProblemStats_acceptanceRate_witness:
  "first (filter (\<lambda>p. p_problemId p = ''PROB_1'') (problems store1)) = Some problem1 \<and>
   first (filter (\<lambda>s. ps_problemId s = p_id problem1) (problemStats store1)) = Some stats1 \<and>
   numeric (ps_acceptedSubmissions stats1) = Some 1 \<and>
   numeric (ps_totalSubmissions stats1) = Some 3 \<and>
   (\<exists>r. getProblemStats store1 ''PROB_1'' =
           Inr (Inr \<lparr>sv_totalSubmissions = Finite 3, sv_acceptedSubmissions = Finite 1,
                     sv_acceptanceRate = Finite r, sv_difficulty = Some EASY\<rparr>) \<and>
         r = 2345390243441541 / 70368744177664 \<and> 0 \<le> r \<and> r \<le> 100 \<and>
         \<bar>r - 1 / 3 * 100\<bar> \<le> 1 / 200 + 1 / 2 ^ 44) \<and>
   first (filter (\<lambda>s. ps_problemId s = p_id problem1)
            (problemStats (store1\<lparr>problemStats := [emptyStats]\<rparr>))) = Some emptyStats \<and>
   numeric (ps_acceptedSubmissions emptyStats) = Some 0 \<and>
   numeric (ps_totalSubmissions emptyStats) = Some 0 \<and>
   getProblemStats (store1\<lparr>problemStats := [emptyStats]\<rparr>) ''PROB_1'' =
     Inr (Inr \<lparr>sv_totalSubmissions = Finite 0, sv_acceptedSubmissions = Finite 0,
               sv_acceptanceRate = Finite 0, sv_difficulty = Some EASY\<rparr>) \<and>
   js_div (ps_acceptedSubmissions emptyStats) (ps_totalSubmissions emptyStats) = NaN"
proof -
  let ?db = "store1\<lparr>problemStats := [emptyStats]\<rparr>"
  have p: "first (filter (\<lambda>p. p_problemId p = ''PROB_1'') (problems store1)) = Some problem1"
    by (simp add: first_def store1_def problem1_def)
  have s: "first (filter (\<lambda>s. ps_problemId s = p_id problem1) (problemStats store1)) = Some stats1"
    by (simp add: first_def store1_def problem1_def stats1_def)
  have a: "numeric (ps_acceptedSubmissions stats1) = Some 1" by (simp add: stats1_def)
  have t: "numeric (ps_totalSubmissions stats1) = Some 3" by (simp add: stats1_def)
  have p0: "first (filter (\<lambda>p. p_problemId p = ''PROB_1'') (problems ?db)) = Some problem1"
    by (simp add: first_def store1_def problem1_def)
  have s0: "first (filter (\<lambda>s. ps_problemId s = p_id problem1) (problemStats ?db)) = Some emptyStats"
    by (simp add: first_def problem1_def emptyStats_def)
  have a0: "numeric (ps_acceptedSubmissions emptyStats) = Some 0" by (simp add: emptyStats_def)
  have t0: "numeric (ps_totalSubmissions emptyStats) = Some 0" by (simp add: emptyStats_def)
  from getProblemStats_acceptanceRate [OF p s a t] getProblemStats_store1
  have w1: "\<exists>r. getProblemStats store1 ''PROB_1'' =
           Inr (Inr \<lparr>sv_totalSubmissions = Finite 3, sv_acceptedSubmissions = Finite 1,
                     sv_acceptanceRate = Finite r, sv_difficulty = Some EASY\<rparr>) \<and>
         r = 2345390243441541 / 70368744177664 \<and> 0 \<le> r \<and> r \<le> 100 \<and>
         \<bar>r - 1 / 3 * 100\<bar> \<le> 1 / 200 + 1 / 2 ^ 44"
    by auto
  from getProblemStats_acceptanceRate [OF p0 s0 a0 t0]
  have w0: "getProblemStats ?db ''PROB_1'' =
     Inr (Inr \<lparr>sv_totalSubmissions = Finite 0, sv_acceptedSubmissions = Finite 0,
               sv_acceptanceRate = Finite 0, sv_difficulty = Some EASY\<rparr>) \<and>
     js_div (ps_acceptedSubmissions emptyStats) (ps_totalSubmissions emptyStats) = NaN"
    using getProblemStats_reads [OF p0 s0]
    by (auto simp: emptyStats_def problem1_def js_gt_def rate_of_zero)
  from p s a t w1 s0 a0 t0 w0 show ?thesis by (intro conjI) simp_all
qed

text \<open>
  Without these conditions the claim fails, on three records with
  \<open>acceptedSubmissions \<le> totalSubmissions\<close>. With \<open>- 1\<close> accepted out of 1 the rate is
  \<open>- 100\<close>, below 0. With 23 accepted out of 160 the percentage is 14.375, which is
  14.38 to two decimal places; the two products by 100 give 14.374999999999998 and
  1437.4999999999998, so the handler returns the double of 14.37, which is more than
  0.005 below the percentage. With both counters infinite the rate is NaN.
\<close>

theorem getProblemStats_acceptanceRate_counterexample:
  "js_le (ps_acceptedSubmissions negativeStats) (ps_totalSubmissions negativeStats) \<and>
   getProblemStats (store1\<lparr>problemStats := [negativeStats]\<rparr>) ''PROB_1'' =
     Inr (Inr \<lparr>sv_totalSubmissions = Finite 1, sv_acceptedSubmissions = Finite (- 1),
               sv_acceptanceRate = Finite (- 100), sv_difficulty = Some EASY\<rparr>) \<and>
   \<not> js_le (Finite 0) (Finite (- 100)) \<and>
   js_le (ps_acceptedSubmissions tieStats) (ps_totalSubmissions tieStats) \<and>
   getProblemStats (store1\<lparr>problemStats := [tieStats]\<rparr>) ''PROB_1'' =
     Inr (Inr \<lparr>sv_totalSubmissions = Finite 160, sv_acceptedSubmissions = Finite 23,
               sv_acceptanceRate = Finite (8089590830664253 / 562949953421312),
               sv_difficulty = Some EASY\<rparr>) \<and>
   rat_of_int \<lfloor>(23 / 160 * 100 * 100 + 1 / 2 :: rat)\<rfloor> / 100 = (1438 / 100 :: rat) \<and>
   double_of (1438 / 100) = Finite (8095220330198467 / 562949953421312) \<and>
   (1 / 200 :: rat) < \<bar>8089590830664253 / 562949953421312 - 23 / 160 * 100\<bar> \<and>
   js_le (ps_acceptedSubmissions infiniteStats) (ps_totalSubmissions infiniteStats) \<and>
   getProblemStats (store1\<lparr>problemStats := [infiniteStats]\<rparr>) ''PROB_1'' =
     Inr (Inr \<lparr>sv_totalSubmissions = PosInfinity, sv_acceptedSubmissions = PosInfinity,
               sv_acceptanceRate = NaN, sv_difficulty = Some EASY\<rparr>)"
proof -
  have p: "first (filter (\<lambda>p. p_problemId p = ''PROB_1'') (problems (store1\<lparr>problemStats := tbl\<rparr>))) =
             Some problem1" for tbl
    by (simp add: first_def store1_def problem1_def)
  have s: "first (filter (\<lambda>s. ps_problemId s = p_id problem1)
             (problemStats (store1\<lparr>problemStats := [stats]\<rparr>))) = Some stats"
    if "ps_problemId stats = ''p1''" for stats
    using that by (simp add: first_def problem1_def)
  have n1: "js_le (ps_acceptedSubmissions negativeStats) (ps_totalSubmissions negativeStats)"
    by (simp add: negativeStats_def js_le_def)
  have n2: "getProblemStats (store1\<lparr>problemStats := [negativeStats]\<rparr>) ''PROB_1'' =
     Inr (Inr \<lparr>sv_totalSubmissions = Finite 1, sv_acceptedSubmissions = Finite (- 1),
               sv_acceptanceRate = Finite (- 100), sv_difficulty = Some EASY\<rparr>)"
    using getProblemStats_reads [OF p s, of negativeStats] negative_rate
    by (simp add: negativeStats_def problem1_def js_gt_def)
  have n3: "\<not> js_le (Finite 0) (Finite (- 100))" by (simp add: js_le_def)
  have t1: "js_le (ps_acceptedSubmissions tieStats) (ps_totalSubmissions tieStats)"
    by (simp add: tieStats_def js_le_def)
  have t2: "getProblemStats (store1\<lparr>problemStats := [tieStats]\<rparr>) ''PROB_1'' =
     Inr (Inr \<lparr>sv_totalSubmissions = Finite 160, sv_acceptedSubmissions = Finite 23,
               sv_acceptanceRate = Finite (8089590830664253 / 562949953421312),
               sv_difficulty = Some EASY\<rparr>)"
    using getProblemStats_reads [OF p s, of tieStats] tie_rate
    by (simp add: tieStats_def problem1_def js_gt_def)
  have "\<lfloor>(23 / 160 * 100 * 100 + 1 / 2 :: rat)\<rfloor> = 1438" by (rule floor_unique) simp_all
  then have t3: "rat_of_int \<lfloor>(23 / 160 * 100 * 100 + 1 / 2 :: rat)\<rfloor> / 100 = (1438 / 100 :: rat)"
    by simp
  have t4: "double_of (1438 / 100) = Finite (8095220330198467 / 562949953421312)"
    using tie_upper by simp
  have t5: "(1 / 200 :: rat) < \<bar>8089590830664253 / 562949953421312 - 23 / 160 * 100\<bar>" by simp
  have i1: "js_le (ps_acceptedSubmissions infiniteStats) (ps_totalSubmissions infiniteStats)"
    by (simp add: infiniteStats_def js_le_def)
  have i2: "getProblemStats (store1\<lparr>problemStats := [infiniteStats]\<rparr>) ''PROB_1'' =
     Inr (Inr \<lparr>sv_totalSubmissions = PosInfinity, sv_acceptedSubmissions = PosInfinity,
               sv_acceptanceRate = NaN, sv_difficulty = Some EASY\<rparr>)"
    using getProblemStats_reads [OF p s, of infiniteStats]
    by (simp add: infiniteStats_def problem1_def js_gt_def js_div_def js_mul_def)
  from n1 n2 n3 t1 t2 t3 t4 t5 i1 i2 show ?thesis by (intro conjI)
qed

text \<open>
  In a store with one problem for the \<open>problemId\<close> and one statistics record for the
  problem, that record is the one \<open>getProblemStats\<close> reads, so the rate is returned for
  every such record.
\<close>

lemma first_filter_only:
  assumes "x \<in> set xs" and "P x" and "\<forall>y \<in> set xs. P y \<longrightarrow> y = x"
  shows "first (filter P xs) = Some x"
proof -
  from assms(1,2) have "x \<in> set (filter P xs)" by simp
  then obtain y ys where f: "filter P xs = y # ys" by (cases "filter P xs") simp_all
  then have "y \<in> set (filter P xs)" by simp
  then have y: "y \<in> set xs" "P y" by simp_all
  from assms(3) y(1) have "P y \<longrightarrow> y = x" by (rule bspec)
  with y(2) have "y = x" by simp
  with f show ?thesis by (simp add: first_def)
qed

lemma getProblemStats_every_record:
  assumes "problem \<in> set (problems db)" and "stats \<in> set (problemStats db)"
    and "ps_problemId stats = p_id problem"
    and "\<forall>p \<in> set (problems db). p_problemId p = p_problemId problem \<longrightarrow> p = problem"
    and "\<forall>s \<in> set (problemStats db). ps_problemId s = p_id problem \<longrightarrow> s = stats"
    and "numeric (ps_acceptedSubmissions stats) = Some a"
    and "numeric (ps_totalSubmissions stats) = Some t"
    and "0 \<le> a" and "a \<le> t"
  shows "\<exists>rate r.
           getProblemStats db (p_problemId problem) =
             Inr (Inr \<lparr>sv_totalSubmissions = ps_totalSubmissions stats,
                       sv_acceptedSubmissions = ps_acceptedSubmissions stats,
                       sv_acceptanceRate = rate,
                       sv_difficulty = p_difficulty problem\<rparr>) \<and>
           numeric rate = Some r \<and> 0 \<le> r \<and> r \<le> 100 \<and>
           (t = 0 \<longrightarrow> r = 0) \<and>
           (t \<noteq> 0 \<longrightarrow> \<bar>r - a / t * 100\<bar> \<le> 1 / 200 + 1 / 2 ^ 44)"
proof -
  have p: "first (filter (\<lambda>p. p_problemId p = p_problemId problem) (problems db)) = Some problem"
    by (rule first_filter_only [OF assms(1) refl assms(4)])
  have s: "first (filter (\<lambda>s. ps_problemId s = p_id problem) (problemStats db)) = Some stats"
    by (rule first_filter_only [OF assms(2,3,5)])
  from acceptanceRate_finite [OF assms(6-9)] obtain r where
    r: "numeric (js_div (Math_round (js_mul
                  (if js_gt (ps_totalSubmissions stats) (Finite 0)
                   then js_mul (js_div (ps_acceptedSubmissions stats)
                                       (ps_totalSubmissions stats)) (Finite 100)
                   else Finite 0)
                  (Finite 100))) (Finite 100)) = Some r"
       "0 \<le> r" "r \<le> 100" "t = 0 \<longrightarrow> r = 0"
       "t \<noteq> 0 \<longrightarrow> \<bar>r - a / t * 100\<bar> \<le> 1 / 200 + 1 / 2 ^ 44"
    by (elim exE conjE) simp
  show ?thesis
    apply (rule exI)
    apply (rule exI [where x = r])
    apply (intro conjI)
         apply (rule getProblemStats_reads [OF p s])
        apply (rule r(1))
       apply (rule r(2))
      apply (rule r(3))
     apply (rule r(4))
    apply (rule r(5))
    done
qed

section \<open>The capacity of a contest\<close>

text \<open>
  The bound holds as long as every \<open>maxSize\<close> is a whole number: a store in which no two
  contests share an identity and every contest has a whole \<open>maxSize\<close> that its
  participants do not exceed is such a store again after any mutation whose \<open>maxSize\<close>
  argument, when it has one, is a whole number.
\<close>

lemma whole_cases:
  assumes "whole m"
  obtains k where "m = Finite (rat_of_int k)"
  using assms by (cases m) (auto simp: whole_def intro: sym)

lemma whole_create:
  assumes "whole m" and "\<not> js_le m (Finite 0)" and "length xs \<le> 1"
  shows "js_le (js_length xs) m"
proof -
  from assms(1) obtain k where k: "m = Finite (rat_of_int k)" by (rule whole_cases)
  with assms(2) have "rat_of_int 0 < rat_of_int k" by (simp add: js_le_def)
  then have "0 < k" by (simp only: of_int_less_iff)
  with assms(3) have "int (length xs) \<le> k" by simp
  then have "rat_of_int (int (length xs)) \<le> rat_of_int k" by (simp only: of_int_le_iff)
  with k show ?thesis by (simp add: js_le_def js_length_def not_less)
qed

lemma whole_join:
  assumes "whole m" and "\<not> js_ge (js_length xs) m"
  shows "js_le (js_length (xs @ [u])) m"
proof -
  from assms(1) obtain k where k: "m = Finite (rat_of_int k)" by (rule whole_cases)
  with assms(2) have "rat_of_int (int (length xs)) < rat_of_int k"
    by (simp add: js_ge_def js_le_def js_length_def)
  then have "int (length xs) < k" by (simp only: of_int_less_iff)
  then have "int (length (xs @ [u])) \<le> k" by simp
  then have "rat_of_int (int (length (xs @ [u]))) \<le> rat_of_int k" by (simp only: of_int_le_iff)
  with k show ?thesis by (simp add: js_le_def js_length_def not_less)
qed

lemma whole_update:
  assumes "whole m" and "\<not> js_lt m (js_length xs)"
  shows "js_le (js_length xs) m"
proof -
  from assms(1) obtain k where k: "m = Finite (rat_of_int k)" by (rule whole_cases)
  with assms(2) show ?thesis by (simp add: js_le_def js_length_def)
qed

lemma whole_shorter:
  assumes "whole m" and "js_le (js_length xs) m" and "length ys \<le> length xs"
  shows "js_le (js_length ys) m"
proof -
  from assms(1) obtain k where k: "m = Finite (rat_of_int k)" by (rule whole_cases)
  with assms(2) have "rat_of_nat (length xs) \<le> rat_of_int k"
    by (simp add: js_le_def js_length_def not_less)
  moreover from assms(3) have "rat_of_nat (length ys) \<le> rat_of_nat (length xs)" by simp
  ultimately have "rat_of_nat (length ys) \<le> rat_of_int k" by linarith
  with k show ?thesis by (simp add: js_le_def js_length_def not_less)
qed

lemma commit_cases: "commit db r = db \<or> (\<exists>v. r = (commit db r, Inr v))"
  by (cases r; cases "snd r") (simp_all add: commit_def)

lemma patch_ids:
  assumes "patch key i f tbl = Inr tbl'" and "\<And>d. key (f d) = key d"
  shows "map key tbl' = map key tbl"
  using assms by (auto simp: patch_def split: if_splits)

lemma patch_bounded:
  assumes p: "patch c_id i f cs = Inr cs'"
    and d: "distinct (map c_id cs)"
    and x: "x \<in> set cs" "c_id x = i"
    and ok: "\<forall>c \<in> set cs. bounded c"
    and fx: "bounded (f x)"
  shows "\<forall>c \<in> set cs'. bounded c"
proof
  fix c' assume "c' \<in> set cs'"
  with p obtain d' where d': "d' \<in> set cs" "c' = (if c_id d' = i then f d' else d')"
    by (auto simp: patch_def split: if_splits)
  show "bounded c'"
  proof (cases "c_id d' = i")
    case True
    with d x d'(1) have "d' = x" by (metis distinct_key_neq)
    with True d'(2) fx show ?thesis by simp
  next
    case False
    with d' ok show ?thesis by simp
  qed
qed

lemma createContest_preserves:
  assumes inv: "whole_capacity_ok db" and d: "distinct_ids db"
    and fr: "newId \<notin> set (map c_id (contests db))"
    and w: "whole (cc_maxSize args)"
    and r: "createContest db auth now rnd newId args = (db', Inr v)"
  shows "whole_capacity_ok db' \<and> distinct_ids db'"
proof -
  from r obtain new where
    new: "contests db' = contests db @ [new]" "c_id new = newId"
         "c_maxSize new = cc_maxSize args" "length (c_users new) \<le> 1"
         "\<not> js_le (cc_maxSize args) (Finite 0)"
    by (auto simp: createContest_def Let_def split: sum.splits option.splits if_splits)
  from whole_create [OF w new(5,4)] w new(3) have "bounded new" by (simp add: bounded_def)
  with new(1) inv have "whole_capacity_ok db'" by (auto simp: whole_capacity_ok_def)
  moreover from new(1,2) d fr have "distinct_ids db'" by (auto simp: distinct_ids_def)
  ultimately show ?thesis ..
qed

lemma updateContest_preserves:
  assumes inv: "whole_capacity_ok db" and d: "distinct_ids db"
    and w: "case uc_maxSize args of Some m \<Rightarrow> whole m | None \<Rightarrow> True"
    and r: "updateContest db auth now args = (db', Inr v)"
  shows "whole_capacity_ok db' \<and> distinct_ids db'"
proof -
  from r obtain user where a: "auth = Inr (Some user)"
    by (auto simp: updateContest_def split: sum.splits option.splits)
  from r a obtain contest where
    c: "first (filter (\<lambda>c. c_contestId c = uc_contestId args) (contests db)) = Some contest"
    by (auto simp: updateContest_def split: option.splits)
  define f :: "contest \<Rightarrow> contest" where "f = (\<lambda>c.
     c\<lparr>c_updatedAt := now,
       c_name := (case uc_name args of Some n \<Rightarrow> trim n | None \<Rightarrow> c_name c),
       c_description := (case uc_description args of Some d \<Rightarrow> trim d | None \<Rightarrow> c_description c),
       c_startTime := (case uc_startTime args of Some s \<Rightarrow> s | None \<Rightarrow> c_startTime c),
       c_endTime := (case uc_endTime args of Some e \<Rightarrow> e | None \<Rightarrow> c_endTime c),
       c_isPublic := (case uc_isPublic args of Some b \<Rightarrow> b | None \<Rightarrow> c_isPublic c),
       c_maxSize := (case uc_maxSize args of Some m \<Rightarrow> m | None \<Rightarrow> c_maxSize c)\<rparr>)"
  from r a c have
    ms: "\<not> (case uc_maxSize args of Some m \<Rightarrow> js_lt m (js_length (c_users contest)) | None \<Rightarrow> False)"
    and p: "patch c_id (c_id contest) f (contests db) = Inr (contests db')"
    by (auto simp: updateContest_def Let_def f_def split: if_splits sum.splits)
  from c have "contest \<in> set (filter (\<lambda>c. c_contestId c = uc_contestId args) (contests db))"
    by (rule first_Some_mem)
  then have mem: "contest \<in> set (contests db)" by simp
  with inv have old: "bounded contest" by (simp add: whole_capacity_ok_def)
  have fx: "bounded (f contest)"
  proof (cases "uc_maxSize args")
    case None
    with old show ?thesis by (simp add: f_def bounded_def)
  next
    case (Some m)
    with w ms have "whole m" and "\<not> js_lt m (js_length (c_users contest))" by simp_all
    with Some whole_update [of m "c_users contest"] show ?thesis by (simp add: f_def bounded_def)
  qed
  have ids: "c_id (f x) = c_id x" for x by (simp add: f_def)
  from patch_bounded [OF p _ mem refl _ fx] d inv have "whole_capacity_ok db'"
    by (simp add: whole_capacity_ok_def distinct_ids_def)
  moreover from patch_ids [OF p ids] d have "distinct_ids db'" by (simp add: distinct_ids_def)
  ultimately show ?thesis ..
qed

lemma joinContest_preserves:
  assumes inv: "whole_capacity_ok db" and d: "distinct_ids db"
    and r: "joinContest db auth now contestId = (db', Inr v)"
  shows "whole_capacity_ok db' \<and> distinct_ids db'"
proof -
  from r obtain user where a: "auth = Inr (Some user)"
    by (auto simp: joinContest_def split: sum.splits option.splits)
  from r a obtain contest where
    c: "unique (filter (\<lambda>c. c_contestId c = contestId) (contests db)) = Inr (Some contest)"
    by (auto simp: joinContest_def split: sum.splits option.splits)
  define f :: "contest \<Rightarrow> contest" where "f = (\<lambda>c. c\<lparr>c_users := c_users contest @ [u_id user], c_updatedAt := now\<rparr>)"
  from r a c have
    room: "\<not> js_ge (js_length (c_users contest)) (c_maxSize contest)"
    and p: "patch c_id (c_id contest) f (contests db) = Inr (contests db')"
    by (auto simp: joinContest_def Let_def f_def split: if_splits sum.splits)
  from c have mem: "contest \<in> set (contests db)" by (rule unique_found_mem)
  with inv have old: "whole (c_maxSize contest)" by (simp add: whole_capacity_ok_def bounded_def)
  from whole_join [OF old room] old have fx: "bounded (f contest)"
    by (simp add: f_def bounded_def)
  have ids: "c_id (f x) = c_id x" for x by (simp add: f_def)
  from patch_bounded [OF p _ mem refl _ fx] d inv have "whole_capacity_ok db'"
    by (simp add: whole_capacity_ok_def distinct_ids_def)
  moreover from patch_ids [OF p ids] d have "distinct_ids db'" by (simp add: distinct_ids_def)
  ultimately show ?thesis ..
qed

lemma leaveContest_preserves:
  assumes inv: "whole_capacity_ok db" and d: "distinct_ids db"
    and r: "leaveContest db auth now contestId = (db', Inr v)"
  shows "whole_capacity_ok db' \<and> distinct_ids db'"
proof -
  from r obtain user where a: "auth = Inr (Some user)"
    by (auto simp: leaveContest_def split: sum.splits option.splits)
  from r a obtain contest where
    c: "unique (filter (\<lambda>c. c_contestId c = contestId) (contests db)) = Inr (Some contest)"
    by (auto simp: leaveContest_def split: sum.splits option.splits)
  define f :: "contest \<Rightarrow> contest" where "f = (\<lambda>c. c\<lparr>c_users := filter (\<lambda>i. i \<noteq> u_id user) (c_users contest),
                              c_updatedAt := now\<rparr>)"
  from r a c have p: "patch c_id (c_id contest) f (contests db) = Inr (contests db')"
    by (auto simp: leaveContest_def Let_def f_def split: if_splits sum.splits)
  from c have mem: "contest \<in> set (contests db)" by (rule unique_found_mem)
  with inv have old: "whole (c_maxSize contest)"
      "js_le (js_length (c_users contest)) (c_maxSize contest)"
    by (simp_all add: whole_capacity_ok_def bounded_def)
  have "length (filter (\<lambda>i. i \<noteq> u_id user) (c_users contest)) \<le> length (c_users contest)"
    by (rule length_filter_le)
  from whole_shorter [OF old this] old(1) have fx: "bounded (f contest)"
    by (simp add: f_def bounded_def)
  have ids: "c_id (f x) = c_id x" for x by (simp add: f_def)
  from patch_bounded [OF p _ mem refl _ fx] d inv have "whole_capacity_ok db'"
    by (simp add: whole_capacity_ok_def distinct_ids_def)
  moreover from patch_ids [OF p ids] d have "distinct_ids db'" by (simp add: distinct_ids_def)
  ultimately show ?thesis ..
qed

lemma deleteContestProblems_contests:
  assumes "deleteContestProblems db cps = (db1, r)"
  shows "contests db1 = contests db"
  using assms
  by (induction cps arbitrary: db) (auto split: sum.splits)

lemma patchParticipants_contests:
  assumes "patchParticipants db i ps = (db1, r)"
  shows "contests db1 = contests db"
  using assms
  by (induction db i ps rule: patchParticipants.induct) (auto split: sum.splits)


lemma delete_filter:
  assumes "delete key i tbl = Inr tbl'"
  shows "tbl' = filter (\<lambda>d. key d \<noteq> i) tbl"
  using assms by (simp add: delete_def split: if_splits)

lemma deleteContest_contests:
  assumes r: "deleteContest db auth contestId = (db', Inr v)"
  shows "\<exists>i. contests db' = filter (\<lambda>d. c_id d \<noteq> i) (contests db)"
proof (cases auth)
  case (Inl e)
  with r show ?thesis by (simp add: deleteContest_def)
next
  case (Inr uo)
  show ?thesis
  proof (cases uo)
    case None
    with Inr r show ?thesis by (simp add: deleteContest_def)
  next
    case (Some user)
    note a = Inr Some
    show ?thesis
    proof (cases "unique (filter (\<lambda>c. c_contestId c = contestId) (contests db))")
      case (Inl e)
      with a r show ?thesis by (simp add: deleteContest_def)
    next
      case u: (Inr co)
      show ?thesis
      proof (cases co)
        case None
        with a u r show ?thesis by (simp add: deleteContest_def)
      next
        case found: (Some contest)
        note c = u found
        show ?thesis
        proof (cases "\<not> c_creatorId contest = u_id user \<and> \<not> u_role user = ADMIN")
          case True
          with a c r show ?thesis by (simp add: deleteContest_def)
        next
          case False
          then have allowed:
            "(\<not> c_creatorId contest = u_id user \<and> \<not> u_role user = ADMIN) = False"
            by simp
          show ?thesis
          proof (cases "first (filter (\<lambda>s. cs_contestId s = c_id contest) (contestSubmissions db))")
            case (Some y)
            from r show ?thesis
              unfolding deleteContest_def a c Let_def
              by (simp only: sum.case option.case allowed if_False Some prod.inject sum.distinct
                    simp_thms)
          next
            case nosub: None
            obtain db1 r1 where
              l1: "deleteContestProblems db
                     (filter (\<lambda>cp. cp_contestId cp = c_id contest) (contestProblems db)) = (db1, r1)"
              by (rule prod.exhaust)
            obtain db2 r2 where
              l2: "patchParticipants db1 (c_id contest)
                     (map (get u_id (users db1)) (c_users contest)) = (db2, r2)"
              by (rule prod.exhaust)
            from l2 have c2: "contests db2 = contests db1" by (rule patchParticipants_contests)
            from l1 have c1: "contests db1 = contests db" by (rule deleteContestProblems_contests)
            from r have r': "(case r1 of
                Inl e \<Rightarrow> (db1, Inl e)
              | Inr _ \<Rightarrow>
                  (case r2 of
                     Inl e \<Rightarrow> (db2, Inl e)
                   | Inr _ \<Rightarrow>
                       (case delete c_id (c_id contest) (contests db2) of
                          Inl e \<Rightarrow> (db2, Inl e)
                        | Inr cs \<Rightarrow>
                            (db2\<lparr>contests := cs\<rparr>, Inr (''Contest deleted successfully'', True))))) =
              (db', Inr v)"
              unfolding deleteContest_def a c Let_def
              by (simp only: sum.case option.case allowed if_False nosub l1 l2 prod.case)
            then obtain cs where del: "delete c_id (c_id contest) (contests db2) = Inr cs"
              and db': "db' = db2\<lparr>contests := cs\<rparr>"
              by (cases r1; cases r2; cases "delete c_id (c_id contest) (contests db2)") simp_all
            from delete_filter [OF del] db' c1 c2 show ?thesis by auto
          qed
        qed
      qed
    qed
  qed
qed

lemma deleteContest_preserves:
  assumes inv: "whole_capacity_ok db" and d: "distinct_ids db"
    and r: "deleteContest db auth contestId = (db', Inr v)"
  shows "whole_capacity_ok db' \<and> distinct_ids db'"
proof -
  from deleteContest_contests [OF r] obtain i where
    "contests db' = filter (\<lambda>d. c_id d \<noteq> i) (contests db)" ..
  with inv d show ?thesis by (auto simp: whole_capacity_ok_def distinct_ids_def distinct_map_filter)
qed

lemma syncUser_contests: "contests (fst (syncUser db randomNumber newId args)) = contests db"
  by (simp add: syncUser_def Let_def)

lemma syncUser_preserves:
  assumes inv: "whole_capacity_ok db" and d: "distinct_ids db"
    and r: "syncUser db randomNumber newId args = (db', Inr v)"
  shows "whole_capacity_ok db' \<and> distinct_ids db'"
proof -
  from r have "db' = fst (syncUser db randomNumber newId args)" by simp
  then have "contests db' = contests db" by (simp only: syncUser_contests)
  with inv d show ?thesis by (simp add: whole_capacity_ok_def distinct_ids_def)
qed

lemma fst_try_catch: "fst (try_catch r fallback) = fst r"
  by (cases r; cases "snd r") (simp_all add: try_catch_def)

lemma commit_contests:
  assumes "contests (fst r) = contests db"
  shows "contests (commit db r) = contests db"
  using assms by (cases "snd r") (simp_all add: commit_def)

lemma same_contests:
  assumes "contests db' = contests db" and "whole_capacity_ok db" and "distinct_ids db"
  shows "whole_capacity_ok db' \<and> distinct_ids db'"
  using assms by (simp add: whole_capacity_ok_def distinct_ids_def)

lemma createTestCase_contests:
  "contests (fst (createTestCase db auth now rnd newId args)) = contests db"
  by (simp add: createTestCase_def Let_def split: sum.splits prod.splits)

lemma updateTestCase_contests:
  "contests (fst (updateTestCase db auth args)) = contests db"
  unfolding updateTestCase_def fst_try_catch
  by (simp split: sum.splits option.splits)

lemma deleteTestCase_contests:
  "contests (fst (deleteTestCase db auth now testcaseId)) = contests db"
  unfolding deleteTestCase_def fst_try_catch
  by (simp add: Let_def split: sum.splits option.splits)

lemma insertTestCases_contests:
  "contests (fst (insertTestCases db problem_id now rnd newId k tcs)) = contests db"
  by (induction tcs arbitrary: db k) (simp_all add: Let_def case_prod_beta)

lemma bulkCreateTestCases_contests:
  "contests (fst (bulkCreateTestCases db auth now rnd newId problemId tcs)) = contests db"
proof (cases "canModifyProblem db auth problemId")
  case (Inl e)
  then show ?thesis unfolding bulkCreateTestCases_def fst_try_catch by simp
next
  case (Inr up)
  obtain user problem where up: "up = (user, problem)" by (cases up)
  obtain db1 created where
    ins: "insertTestCases db (p_id problem) now rnd newId 0 tcs = (db1, created)"
    by (cases "insertTestCases db (p_id problem) now rnd newId 0 tcs")
  from insertTestCases_contests [of db "p_id problem" now rnd newId 0 tcs] ins
  have "contests db1 = contests db" by simp
  with Inr up ins show ?thesis
    unfolding bulkCreateTestCases_def fst_try_catch by (simp split: sum.splits)
qed

lemma createProblem_contests:
  "contests (fst (createProblem db auth now rnd newId args)) = contests db"
  unfolding createProblem_def fst_try_catch
  by (simp add: Let_def split: sum.splits option.splits)

lemma getProblemForEdit_contests:
  "contests (fst (getProblemForEdit db auth now args)) = contests db"
  unfolding getProblemForEdit_def fst_try_catch
  by (simp split: sum.splits option.splits)

lemma deleteTestcases_contests:
  assumes "deleteTestcases db ids = (db1, r)"
  shows "contests db1 = contests db"
  using assms by (induction ids arbitrary: db) (auto split: sum.splits)

lemma deleteProblem_contests:
  "contests (fst (deleteProblem db auth problemId)) = contests db"
proof (cases auth)
  case (Inl e)
  then show ?thesis unfolding deleteProblem_def fst_try_catch by simp
next
  case (Inr user)
  show ?thesis
  proof (cases "first (filter (\<lambda>p. p_problemId p = problemId) (problems db))")
    case None
    with Inr show ?thesis unfolding deleteProblem_def fst_try_catch by simp
  next
    case (Some problem)
    show ?thesis
    proof (cases user)
      case None
      with Inr Some show ?thesis unfolding deleteProblem_def fst_try_catch by simp
    next
      case u: (Some u)
      obtain db1 r1 where l1: "deleteTestcases db (p_testcases problem) = (db1, r1)"
        by (rule prod.exhaust)
      from l1 have c1: "contests db1 = contests db" by (rule deleteTestcases_contests)
      show ?thesis
      proof (cases r1)
        case (Inl e)
        with Inr Some u l1 c1 show ?thesis
          unfolding deleteProblem_def fst_try_catch by simp
      next
        case r1: (Inr x)
        with Inr Some u l1 c1 show ?thesis
          unfolding deleteProblem_def fst_try_catch
          by (simp add: Let_def split: sum.splits option.splits)
      qed
    qed
  qed
qed

lemma run_preserves:
  assumes inv: "whole_capacity_ok db" and d: "distinct_ids db" and fr: "fresh db m"
    and w: "whole_maxSize m"
  shows "whole_capacity_ok (run db m) \<and> distinct_ids (run db m)"
proof (cases m)
  case (SyncUser randomNumber newId args)
  from commit_cases [of db "syncUser db randomNumber newId args"] inv d show ?thesis
    unfolding SyncUser run.simps by (metis syncUser_preserves)
next
  case (CreateContest auth now rnd newId args)
  with fr w have "newId \<notin> set (map c_id (contests db))" and "whole (cc_maxSize args)"
    by simp_all
  with commit_cases [of db "createContest db auth now rnd newId args"] inv d show ?thesis
    unfolding CreateContest run.simps by (metis createContest_preserves)
next
  case (UpdateContest auth now args)
  with w have "case uc_maxSize args of Some m \<Rightarrow> whole m | None \<Rightarrow> True" by simp
  with commit_cases [of db "updateContest db auth now args"] inv d show ?thesis
    unfolding UpdateContest run.simps by (metis updateContest_preserves)
next
  case (DeleteContest auth contestId)
  from commit_cases [of db "deleteContest db auth contestId"] inv d show ?thesis
    unfolding DeleteContest run.simps by (metis deleteContest_preserves)
next
  case (JoinContest auth now contestId)
  from commit_cases [of db "joinContest db auth now contestId"] inv d show ?thesis
    unfolding JoinContest run.simps by (metis joinContest_preserves)
next
  case (LeaveContest auth now contestId)
  from commit_cases [of db "leaveContest db auth now contestId"] inv d show ?thesis
    unfolding LeaveContest run.simps by (metis leaveContest_preserves)
next
  case (CreateTestCase auth now rnd newId args)
  have "contests (run db m) = contests db"
    unfolding CreateTestCase run.simps by (rule commit_contests [OF createTestCase_contests])
  with inv d show ?thesis by (simp add: same_contests)
next
  case (UpdateTestCase auth args)
  have "contests (run db m) = contests db"
    unfolding UpdateTestCase run.simps by (rule commit_contests [OF updateTestCase_contests])
  with inv d show ?thesis by (simp add: same_contests)
next
  case (DeleteTestCase auth now testcaseId)
  have "contests (run db m) = contests db"
    unfolding DeleteTestCase run.simps by (rule commit_contests [OF deleteTestCase_contests])
  with inv d show ?thesis by (simp add: same_contests)
next
  case (BulkCreateTestCases auth now rnd newId problemId tcs)
  have "contests (run db m) = contests db"
    unfolding BulkCreateTestCases run.simps
    by (rule commit_contests [OF bulkCreateTestCases_contests])
  with inv d show ?thesis by (simp add: same_contests)
next
  case (CreateProblem auth now rnd newId args)
  have "contests (run db m) = contests db"
    unfolding CreateProblem run.simps by (rule commit_contests [OF createProblem_contests])
  with inv d show ?thesis by (simp add: same_contests)
next
  case (GetProblemForEdit auth now args)
  have "contests (run db m) = contests db"
    unfolding GetProblemForEdit run.simps by (rule commit_contests [OF getProblemForEdit_contests])
  with inv d show ?thesis by (simp add: same_contests)
next
  case (DeleteProblem auth problemId)
  have "contests (run db m) = contests db"
    unfolding DeleteProblem run.simps by (rule commit_contests [OF deleteProblem_contests])
  with inv d show ?thesis by (simp add: same_contests)
qed


text \<open>Whole sizes that the participants do not exceed satisfy the bound.\<close>

lemma whole_capacity_ok_capacity_ok:
  assumes "whole_capacity_ok db"
  shows "capacity_ok db"
  using assms by (simp add: whole_capacity_ok_def capacity_ok_def bounded_def)


text \<open>
  \<open>joinContest\<close> throws on a contest with \<open>users.length \<ge> maxSize\<close>, and
  \<open>updateContest\<close> throws on a new \<open>maxSize\<close> below the number of participants;
  neither writes before it throws.
\<close>

lemma joinContest_full_rejected:
  assumes "c \<in> set (contests db)" and "c_contestId c = contestId"
    and "js_ge (js_length (c_users c)) (c_maxSize c)"
  shows "\<exists>e. joinContest db auth now contestId = (db, Inl e)"
proof (cases auth)
  case (Inl e)
  then show ?thesis by (simp add: joinContest_def)
next
  case (Inr uo)
  show ?thesis
  proof (cases uo)
    case None
    with Inr show ?thesis by (simp add: joinContest_def)
  next
    case (Some user)
    show ?thesis
    proof (cases "unique (filter (\<lambda>c. c_contestId c = contestId) (contests db))")
      case (Inl e)
      with Inr Some show ?thesis by (simp add: joinContest_def)
    next
      case inr: (Inr co)
      show ?thesis
      proof (cases co)
        case None
        with inr assms(1,2) have False by (auto dest: unique_filter_None)
        then show ?thesis ..
      next
        case found: (Some contest)
        with inr have "filter (\<lambda>c. c_contestId c = contestId) (contests db) = [contest]"
          by (auto intro: unique_filter_mem)
        from filter_single_mem [OF this assms(1)] assms(2) have "c = contest" by simp
        with assms(3) have "js_ge (js_length (c_users contest)) (c_maxSize contest)" by simp
        with Inr Some inr found show ?thesis by (simp add: joinContest_def)
      qed
    qed
  qed
qed

lemma updateContest_shrink_rejected:
  assumes c: "first (filter (\<lambda>c. c_contestId c = uc_contestId args) (contests db)) = Some c"
    and m: "uc_maxSize args = Some k" and small: "js_lt k (js_length (c_users c))"
  shows "\<exists>e. updateContest db auth now args = (db, Inl e)"
proof (cases auth)
  case (Inl e)
  then show ?thesis by (simp add: updateContest_def)
next
  case (Inr uo)
  show ?thesis
  proof (cases uo)
    case None
    with Inr show ?thesis by (simp add: updateContest_def)
  next
    case (Some user)
    with Inr c m small show ?thesis by (simp add: updateContest_def Let_def)
  qed
qed

text \<open>The two rejections on a full contest.\<close>

lemma fullStore_rejections:
  "(\<exists>e. joinContest fullStore (Inr (Some carol)) 150 ''contest_1'' = (fullStore, Inl e)) \<and>
   (\<exists>e. updateContest fullStore (Inr (Some alice)) 50 shrinkArgs = (fullStore, Inl e))"
proof -
  let ?c = "contest1\<lparr>c_users := [''u2'', ''u1'']\<rparr>"
  have c1: "?c \<in> set (contests fullStore)" by (simp add: fullStore_def)
  have c2: "c_contestId ?c = ''contest_1''" by (simp add: contest1_def)
  have c3: "js_ge (js_length (c_users ?c)) (c_maxSize ?c)"
    by (simp add: contest1_def js_ge_def js_le_def js_length_def)
  have d1: "first (filter (\<lambda>c. c_contestId c = uc_contestId shrinkArgs) (contests fullStore)) = Some ?c"
    by (simp add: first_def fullStore_def contest1_def shrinkArgs_def)
  have d2: "uc_maxSize shrinkArgs = Some (Finite 1)" by (simp add: shrinkArgs_def)
  have d3: "js_lt (Finite 1) (js_length (c_users ?c))" by (simp add: js_length_def)
  from joinContest_full_rejected [OF c1 c2 c3] updateContest_shrink_rejected [OF d1 d2 d3]
  show ?thesis by (rule conjI)
qed

text \<open>
  Two calls lead from the empty store to a store that breaks the bound: \<open>syncUser\<close> for
  Carol, and Carol's \<open>createContest\<close> with \<open>maxSize = 0.5\<close> and \<open>addSelf\<close>.
\<close>

lemma reachable_exceeds_maxSize:
  "reachable (run (run emptyStore (SyncUser 111111 ''u3'' carolArgs))
                (CreateContest (Inr (Some carol)) 250 ''k3x9a2b'' ''c2'' halfArgs)) \<and>
   map (\<lambda>c. (c_id c, c_users c, c_maxSize c))
     (contests (run (run emptyStore (SyncUser 111111 ''u3'' carolArgs))
                  (CreateContest (Inr (Some carol)) 250 ''k3x9a2b'' ''c2'' halfArgs))) =
     [(''c2'', [''u3''], Finite (1 / 2))]"
proof -
  let ?sync = "SyncUser 111111 ''u3'' carolArgs"
  let ?create = "CreateContest (Inr (Some carol)) 250 ''k3x9a2b'' ''c2'' halfArgs"
  define s where "s = run emptyStore ?sync"
  have c0: "contests s = []"
    by (simp add: s_def syncUser_def commit_def emptyStore_def Let_def)
  have u0: "map u_id (users s) = [''u3'']"
    by (simp add: s_def syncUser_def commit_def emptyStore_def carolArgs_def first_def Let_def)
  have "reachable s"
    unfolding s_def by (rule reachable_run [OF reachable_empty]) simp
  moreover have "fresh s ?create" by (simp add: c0)
  ultimately have r: "reachable (run s ?create)" by (rule reachable_run)
  from u0 have u1: "''u3'' \<in> set (map u_id (users s))" by simp
  have "map (\<lambda>c. (c_id c, c_users c, c_maxSize c)) (contests (run s ?create)) =
          [(''c2'', [''u3''], Finite (1 / 2))]"
    using c0 u1
    by (simp add: createContest_def commit_def patch_def halfArgs_def carol_def js_le_def Let_def)
  with r show ?thesis unfolding s_def ..
qed

text \<open>What the two calls leave in the table of contests.\<close>

lemma run_create_half:
  "map (\<lambda>c. (c_id c, c_users c, c_maxSize c))
     (contests (run store1 (CreateContest (Inr (Some alice)) 250 ''k3x9a2b'' ''c2'' halfArgs))) =
     [(''c1'', [''u2''], Finite 2), (''c2'', [''u1''], Finite (1 / 2))]"
  by (simp add: createContest_def commit_def patch_def store1_def contest1_def halfArgs_def
        alice_def bob_def js_le_def Let_def)

lemma run_join_sesqui:
  "map (\<lambda>c. (c_id c, c_users c, c_maxSize c))
     (contests (run sesquiStore (JoinContest (Inr (Some alice)) 150 ''contest_1''))) =
     [(''c1'', [''u2'', ''u1''], Finite (3 / 2))]"
  by (simp add: joinContest_def commit_def unique_def patch_def sesquiStore_def store1_def
        contest1_def alice_def bob_def js_ge_def js_le_def js_length_def)

text \<open>A store with a contest that has more participants than its \<open>maxSize\<close> breaks the bound.\<close>

lemma exceeds_not_capacity_ok:
  assumes "(i, us, m) \<in> set (map (\<lambda>c. (c_id c, c_users c, c_maxSize c)) (contests db))"
    and "\<not> js_le (js_length us) m"
  shows "\<not> capacity_ok db"
proof
  assume "capacity_ok db"
  then have all: "\<forall>c \<in> set (contests db). js_le (js_length (c_users c)) (c_maxSize c)"
    by (simp only: capacity_ok_def)
  from assms(1) obtain c where c: "c \<in> set (contests db)" "c_users c = us" "c_maxSize c = m"
    by auto
  from all c(1) have "js_le (js_length (c_users c)) (c_maxSize c)" by (rule bspec)
  with c(2,3) assms(2) show False by simp
qed

lemma capacity_broken:
  "capacity_ok store1 \<and> distinct_ids store1 \<and>
   \<not> capacity_ok (run store1 (CreateContest (Inr (Some alice)) 250 ''k3x9a2b'' ''c2'' halfArgs)) \<and>
   capacity_ok sesquiStore \<and> distinct_ids sesquiStore \<and>
   \<not> capacity_ok (run sesquiStore (JoinContest (Inr (Some alice)) 150 ''contest_1''))"
proof -
  have a1: "capacity_ok store1"
    by (simp add: capacity_ok_def store1_def contest1_def js_le_def js_length_def)
  have a2: "distinct_ids store1" by (simp add: distinct_ids_def store1_def)
  have "\<not> js_le (js_length [''u1'']) (Finite (1 / 2))" by (simp add: js_le_def js_length_def)
  then have a3: "\<not> capacity_ok (run store1 (CreateContest (Inr (Some alice)) 250 ''k3x9a2b'' ''c2'' halfArgs))"
    by (rule exceeds_not_capacity_ok [rotated]) (simp only: run_create_half, simp)
  have b1: "capacity_ok sesquiStore"
    by (simp add: capacity_ok_def sesquiStore_def store1_def contest1_def js_le_def js_length_def)
  have b2: "distinct_ids sesquiStore" by (simp add: distinct_ids_def sesquiStore_def store1_def)
  have "\<not> js_le (js_length [''u2'', ''u1'']) (Finite (3 / 2))"
    by (simp add: js_le_def js_length_def)
  then have b3: "\<not> capacity_ok (run sesquiStore (JoinContest (Inr (Some alice)) 150 ''contest_1''))"
    by (rule exceeds_not_capacity_ok [rotated]) (simp only: run_join_sesqui, simp)
  from a1 a2 a3 b1 b2 b3 show ?thesis by (intro conjI)
qed

text \<open>
  Claim C9. \<open>users.length \<le> maxSize\<close> is not an invariant of the store. \<open>createContest\<close>
  requires \<open>maxSize > 0\<close> and no more: called with \<open>maxSize = 0.5\<close> and \<open>addSelf\<close> on a
  store whose contest satisfies the bound, it inserts a contest with one participant,
  more than its \<open>maxSize\<close>. \<open>joinContest\<close> rejects \<open>users.length \<ge> maxSize\<close> and no more:
  on a contest with one participant and \<open>maxSize = 1.5\<close>, which satisfies the bound, it
  admits a second participant.
\<close>

theorem createContest_exceeds_maxSize:
  "js_gt (cc_maxSize halfArgs) (Finite 0) \<and>
   map (\<lambda>c. (c_id c, c_users c, c_maxSize c)) (contests store1) =
     [(''c1'', [''u2''], Finite 2)] \<and>
   js_le (js_length [''u2'']) (Finite 2) \<and>
   map (\<lambda>c. (c_id c, c_users c, c_maxSize c))
     (contests (run store1 (CreateContest (Inr (Some alice)) 250 ''k3x9a2b'' ''c2'' halfArgs))) =
     [(''c1'', [''u2''], Finite 2), (''c2'', [''u1''], Finite (1 / 2))] \<and>
   \<not> js_le (js_length [''u1'']) (Finite (1 / 2)) \<and>
   map (\<lambda>c. (c_id c, c_users c, c_maxSize c)) (contests sesquiStore) =
     [(''c1'', [''u2''], Finite (3 / 2))] \<and>
   js_le (js_length [''u2'']) (Finite (3 / 2)) \<and>
   map (\<lambda>c. (c_id c, c_users c, c_maxSize c))
     (contests (run sesquiStore (JoinContest (Inr (Some alice)) 150 ''contest_1''))) =
     [(''c1'', [''u2'', ''u1''], Finite (3 / 2))] \<and>
   \<not> js_le (js_length [''u2'', ''u1'']) (Finite (3 / 2))"
proof -
  have a1: "js_gt (cc_maxSize halfArgs) (Finite 0)" by (simp add: halfArgs_def js_gt_def)
  have a2: "map (\<lambda>c. (c_id c, c_users c, c_maxSize c)) (contests store1) =
              [(''c1'', [''u2''], Finite 2)]"
    by (simp add: store1_def contest1_def)
  have a3: "js_le (js_length [''u2'']) (Finite 2)" by (simp add: js_le_def js_length_def)
  have a4: "\<not> js_le (js_length [''u1'']) (Finite (1 / 2))" by (simp add: js_le_def js_length_def)
  have b1: "map (\<lambda>c. (c_id c, c_users c, c_maxSize c)) (contests sesquiStore) =
              [(''c1'', [''u2''], Finite (3 / 2))]"
    by (simp add: sesquiStore_def store1_def contest1_def)
  have b2: "js_le (js_length [''u2'']) (Finite (3 / 2))" by (simp add: js_le_def js_length_def)
  have b3: "\<not> js_le (js_length [''u2'', ''u1'']) (Finite (3 / 2))"
    by (simp add: js_le_def js_length_def)
  from a1 a2 a3 run_create_half a4 b1 b2 run_join_sesqui b3 show ?thesis by (intro conjI)
qed

section \<open>Who sees a private testcase\<close>

lemma get_Some:
  assumes "get key tbl i = Some d"
  shows "d \<in> set tbl \<and> key d = i"
  using assms by (auto simp: get_def find_Some_iff)

lemma publicTestcases_public:
  assumes "t \<in> set (publicTestcases db ids)"
  shows "t_isPublic t \<and> t \<in> set (testcases db) \<and> t_id t \<in> set ids"
  using assms
  by (induction ids) (auto split: option.splits if_splits dest: get_Some get_Some [OF sym])

lemma getProblem_public_only:
  assumes "getProblem db problemId = Inr v" and "t \<in> set (pv_testcases v)"
  shows "t_isPublic t \<and> t \<in> set (testcases db) \<and> t_id t \<in> set (p_testcases (pv_problem v))"
proof (cases "first (filter (\<lambda>p. p_problemId p = problemId) (problems db))")
  case None
  with assms(1) show ?thesis by (simp add: getProblem_def)
next
  case (Some problem)
  with assms(1) have "pv_testcases v = publicTestcases db (p_testcases problem)"
    and "pv_problem v = problem"
    by (auto simp: getProblem_def)
  with assms(2) publicTestcases_public [of t db "p_testcases problem"] show ?thesis by simp
qed

lemma collectTestcases_private:
  assumes "t \<in> set (collectTestcases db canSeeAll publicOnly ids)" and "\<not> t_isPublic t"
  shows "canSeeAll \<or> publicOnly = Some False"
  using assms by (induction ids) (auto split: option.splits if_splits)

lemma getProblemTestCases_gate:
  assumes "getProblemTestCases db (Inr (Some user)) problemId publicOnly = Inr ts"
    and "publicOnly \<noteq> Some False" and "t \<in> set ts" and "\<not> t_isPublic t"
  shows "\<exists>problem \<in> set (problems db).
           p_problemId problem = problemId \<and>
           (p_creatorId problem = u_id user \<or> u_role user = ADMIN)"
proof (cases "first (filter (\<lambda>p. p_problemId p = problemId) (problems db))")
  case None
  with assms(1) show ?thesis by (simp add: getProblemTestCases_def)
next
  case (Some problem)
  then have "problem \<in> set (filter (\<lambda>p. p_problemId p = problemId) (problems db))"
    by (rule first_Some_mem)
  then have mem: "problem \<in> set (problems db)" "p_problemId problem = problemId" by simp_all
  show ?thesis
  proof (cases "publicOnly = Some True")
    case True
    with Some assms(1) have "ts = collectTestcases db False publicOnly (p_testcases problem)"
      by (simp add: getProblemTestCases_def)
    with assms(3,4) collectTestcases_private [of t db False publicOnly "p_testcases problem"] assms(2)
    show ?thesis by simp
  next
    case False
    with Some assms(1) have
      "ts = collectTestcases db (p_creatorId problem = u_id user \<or> u_role user = ADMIN)
              publicOnly (p_testcases problem)"
      by (simp add: getProblemTestCases_def Let_def)
    with assms(3,4)
      collectTestcases_private
        [of t db "p_creatorId problem = u_id user \<or> u_role user = ADMIN" publicOnly
            "p_testcases problem"]
      assms(2)
    have "p_creatorId problem = u_id user \<or> u_role user = ADMIN" by simp
    with mem show ?thesis by blast
  qed
qed

text \<open>
  Claim C1. \<open>getProblem\<close> returns public testcases only (lemma
  \<open>getProblem_public_only\<close>), and \<open>getProblemTestCases\<close> called without
  \<open>publicOnly\<close>, or with \<open>publicOnly = true\<close>, returns a private testcase only to the
  creator or an admin (lemma \<open>getProblemTestCases_gate\<close>). Called with
  \<open>publicOnly = false\<close> it returns every testcase to any authenticated caller: here Bob,
  who has role USER and did not create the problem, receives the private testcase.
\<close>

theorem getProblemTestCases_discloses_private:
  "getProblemTestCases store1 (Inr (Some bob)) ''PROB_1'' (Some False) =
     Inr [openTestcase, hiddenTestcase] \<and>
   \<not> t_isPublic hiddenTestcase \<and>
   first (filter (\<lambda>p. p_problemId p = ''PROB_1'') (problems store1)) = Some problem1 \<and>
   p_creatorId problem1 \<noteq> u_id bob \<and> u_role bob \<noteq> ADMIN"
  by (simp add: getProblemTestCases_def get_def first_def store1_def problem1_def bob_def
        openTestcase_def hiddenTestcase_def)

section \<open>The phase filters\<close>

lemma phase_filters_off_boundary:
  assumes "c_isPublic c" and "c_startTime c < c_endTime c" and "now \<noteq> c_endTime c"
  shows "selectContests F_upcoming user now [c] =
           Inr (if contestStatus now c = ''upcoming'' then [c] else [])"
    and "selectContests F_ongoing user now [c] =
           Inr (if contestStatus now c = ''ongoing'' then [c] else [])"
    and "selectContests F_ended user now [c] =
           Inr (if contestStatus now c = ''ended'' then [c] else [])"
  using assms by (auto simp: selectContests_def contestStatus_def Let_def)

text \<open>
  Claim C3. Away from the instant \<open>now = endTime\<close>, a public contest with
  \<open>startTime < endTime\<close> is selected by exactly the filter that names its status (lemma
  \<open>phase_filters_off_boundary\<close>). At \<open>now = endTime\<close> the filter "ended" asks for
  \<open>endTime < now\<close> and the filter "ongoing" for \<open>endTime > now\<close>, so none of the three
  filters selects the contest, while the status computed for it is "ended".
\<close>

theorem phase_filters_miss_end_instant:
  "c_isPublic contest1 \<and> c_startTime contest1 < c_endTime contest1 \<and>
   listContests store1 (Inr None) 200 (Some F_upcoming) None None =
     Inr \<lparr>lp_contests = [], lp_total = 0, lp_hasMore = False\<rparr> \<and>
   listContests store1 (Inr None) 200 (Some F_ongoing) None None =
     Inr \<lparr>lp_contests = [], lp_total = 0, lp_hasMore = False\<rparr> \<and>
   listContests store1 (Inr None) 200 (Some F_ended) None None =
     Inr \<lparr>lp_contests = [], lp_total = 0, lp_hasMore = False\<rparr> \<and>
   listContests store1 (Inr None) 200 (Some F_public) None None =
     Inr \<lparr>lp_contests =
            [\<lparr>lc_contest = contest1, lc_status = ''ended'', lc_participantCount = 1,
              lc_problemCount = 0, lc_creator = None\<rparr>],
          lp_total = 1, lp_hasMore = False\<rparr>"
  by (simp add: listContests_def selectContests_def store1_def contest1_def slice_def
        contestStatus_def contestCreator_def first_def alice_def bob_def Let_def)

end
